theory Spec2Isabelle
  imports Complex_Main
begin

section \<open>The arithmetic of the source\<close>

text \<open>
  Every number of \<^verbatim>\<open>glicko2.cpp\<close> is a C++ \<^verbatim>\<open>double\<close>. The model keeps the four
  kinds of value an IEEE 754 double can hold: a finite number, the two infinities and
  NaN. On the infinities and NaN the operations follow IEEE 754: a nonzero number divided
  by zero is an infinity, \<open>0/0\<close>, \<open>\<infinity> - \<infinity>\<close> and \<open>0 * \<infinity>\<close> are NaN, NaN propagates through
  every operation, and every comparison with NaN is false. The two zeros are one.

  The type \<open>double\<close> of this section computes exactly on finite numbers, without
  rounding. It carries the statements about what \<^verbatim>\<open>Update\<close> computes from what, about the
  volatility loop and about the objects and their logs. The statements that depend on
  rounding and overflow are made on the type \<open>binary64\<close> of the later section, whose
  operations round.
\<close>

datatype double = Fin real | PInf | NInf | NaN

instantiation double :: "{zero, one, plus, uminus, minus, times, divide, abs, ord}"
begin

definition zero_double :: double where
  "zero_double = Fin 0"

definition one_double :: double where
  "one_double = Fin 1"

fun plus_double :: "double \<Rightarrow> double \<Rightarrow> double" where
  "plus_double (Fin x) (Fin y) = Fin (x + y)"
| "plus_double (Fin x) PInf = PInf"
| "plus_double (Fin x) NInf = NInf"
| "plus_double PInf (Fin y) = PInf"
| "plus_double PInf PInf = PInf"
| "plus_double PInf NInf = NaN"
| "plus_double NInf (Fin y) = NInf"
| "plus_double NInf PInf = NaN"
| "plus_double NInf NInf = NInf"
| "plus_double NaN y = NaN"
| "plus_double x NaN = NaN"

fun uminus_double :: "double \<Rightarrow> double" where
  "uminus_double (Fin x) = Fin (- x)"
| "uminus_double PInf = NInf"
| "uminus_double NInf = PInf"
| "uminus_double NaN = NaN"

definition minus_double :: "double \<Rightarrow> double \<Rightarrow> double" where
  "minus_double x y = x + (- y)"

fun times_double :: "double \<Rightarrow> double \<Rightarrow> double" where
  "times_double (Fin x) (Fin y) = Fin (x * y)"
| "times_double (Fin x) PInf = (if x = 0 then NaN else if 0 < x then PInf else NInf)"
| "times_double (Fin x) NInf = (if x = 0 then NaN else if 0 < x then NInf else PInf)"
| "times_double PInf (Fin y) = (if y = 0 then NaN else if 0 < y then PInf else NInf)"
| "times_double NInf (Fin y) = (if y = 0 then NaN else if 0 < y then NInf else PInf)"
| "times_double PInf PInf = PInf"
| "times_double PInf NInf = NInf"
| "times_double NInf PInf = NInf"
| "times_double NInf NInf = PInf"
| "times_double NaN y = NaN"
| "times_double x NaN = NaN"

fun divide_double :: "double \<Rightarrow> double \<Rightarrow> double" where
  "divide_double (Fin x) (Fin y) =
     (if y = 0 then (if x = 0 then NaN else if 0 < x then PInf else NInf)
      else Fin (x / y))"
| "divide_double (Fin x) PInf = Fin 0"
| "divide_double (Fin x) NInf = Fin 0"
| "divide_double PInf (Fin y) = (if 0 \<le> y then PInf else NInf)"
| "divide_double NInf (Fin y) = (if 0 \<le> y then NInf else PInf)"
| "divide_double PInf PInf = NaN"
| "divide_double PInf NInf = NaN"
| "divide_double NInf PInf = NaN"
| "divide_double NInf NInf = NaN"
| "divide_double NaN y = NaN"
| "divide_double x NaN = NaN"

fun abs_double :: "double \<Rightarrow> double" where
  "abs_double (Fin x) = Fin \<bar>x\<bar>"
| "abs_double PInf = PInf"
| "abs_double NInf = PInf"
| "abs_double NaN = NaN"

fun less_double :: "double \<Rightarrow> double \<Rightarrow> bool" where
  "less_double (Fin x) (Fin y) = (x < y)"
| "less_double (Fin x) PInf = True"
| "less_double NInf (Fin y) = True"
| "less_double NInf PInf = True"
| "less_double x y = False"

definition less_eq_double :: "double \<Rightarrow> double \<Rightarrow> bool" where
  "less_eq_double x y = (x < y \<or> (x = y \<and> x \<noteq> NaN))"

instance ..

end

instantiation double :: inverse
begin

definition inverse_double :: "double \<Rightarrow> double" where
  "inverse_double x = 1 div x"

instance ..

end

instance double :: comm_monoid_add
proof
  fix u v w :: double
  show "u + v = v + u"
    by (cases u; cases v; simp)
  show "u + v + w = u + (v + w)"
    by (cases u; cases v; cases w; simp)
  show "0 + u = u"
    unfolding zero_double_def by (cases u; simp)
qed

instance double :: comm_monoid_mult
proof
  fix u v w :: double
  show "u * v = v * u"
    by (cases u; cases v; simp add: mult.commute)
  show "1 * u = u"
    unfolding one_double_def by (cases u; simp)
  show "u * v * w = u * (v * w)"
    by (cases u; cases v; cases w)
       (auto simp: zero_less_mult_iff mult_less_0_iff zero_le_mult_iff mult_le_0_iff not_le not_less)
qed

instance double :: numeral ..

text \<open>The library functions of \<^verbatim>\<open><cmath>\<close> the source calls.\<close>

fun exp_double :: "double \<Rightarrow> double" where
  "exp_double (Fin x) = Fin (exp x)"
| "exp_double PInf = PInf"
| "exp_double NInf = Fin 0"
| "exp_double NaN = NaN"

fun log_double :: "double \<Rightarrow> double" where
  "log_double (Fin x) = (if 0 < x then Fin (ln x) else if x = 0 then NInf else NaN)"
| "log_double PInf = PInf"
| "log_double NInf = NaN"
| "log_double NaN = NaN"

fun sqrt_double :: "double \<Rightarrow> double" where
  "sqrt_double (Fin x) = (if 0 \<le> x then Fin (sqrt x) else NaN)"
| "sqrt_double PInf = PInf"
| "sqrt_double NInf = NaN"
| "sqrt_double NaN = NaN"

section \<open>The rating entity\<close>

text \<open>
  A \<^verbatim>\<open>Glicko2\<close> object owns one \<^verbatim>\<open>Glicko2_impl\<close> through its \<^verbatim>\<open>pimpl\<close> pointer, and
  the copy constructor and the copy assignment copy the pointee, never the pointer: no
  two objects share an implementation. An object is therefore modelled as the value of
  its implementation: the rating, deviation and volatility on the internal scale, and
  the two vectors \<^verbatim>\<open>opponents\<close> (copies of whole \<^verbatim>\<open>Glicko2\<close> objects) and \<^verbatim>\<open>results\<close>.
\<close>

datatype Glicko2 =
  Glicko2 (rating: double) (deviation: double) (volatility: double)
    (opponents: "Glicko2 list") (results: "double list")

datatype RESULT = WIN | LOSS | DRAW

text \<open>The system constant and the macro of \<^verbatim>\<open>g\<close>.\<close>

definition dvolatility :: double where
  "dvolatility = 0.3"

definition PI_SQUARED :: double where
  "PI_SQUARED = 9.86960440108935861883"

definition g :: "double \<Rightarrow> double" where
  "g deviation' = 1.0 / (sqrt_double (1.0 + 3.0 * deviation' * deviation' / PI_SQUARED))"

definition E :: "double \<Rightarrow> double \<Rightarrow> double \<Rightarrow> double" where
  "E rating' rating_opponent deviation_opponent =
     1.0 / (1.0 + exp_double (- g deviation_opponent * (rating' - rating_opponent)))"

subsection \<open>Accessors and mutators\<close>

text \<open>A member function that mutates \<^verbatim>\<open>*this\<close> takes the object and returns the new one.\<close>

definition GetRating :: "Glicko2 \<Rightarrow> double" where
  "GetRating this = rating this * 173.7178 + 1500.0"

definition GetDeviation :: "Glicko2 \<Rightarrow> double" where
  "GetDeviation this = deviation this * 173.7178"

definition GetVolatility :: "Glicko2 \<Rightarrow> double" where
  "GetVolatility this = volatility this"

definition SetRating :: "Glicko2 \<Rightarrow> double \<Rightarrow> Glicko2" where
  "SetRating this r =
     Glicko2 ((r - 1500.0) / 173.7178) (deviation this) (volatility this)
       (opponents this) (results this)"

definition SetDeviation :: "Glicko2 \<Rightarrow> double \<Rightarrow> Glicko2" where
  "SetDeviation this d =
     Glicko2 (rating this) (d / 173.7178) (volatility this) (opponents this) (results this)"

definition SetVolatility :: "Glicko2 \<Rightarrow> double \<Rightarrow> Glicko2" where
  "SetVolatility this v =
     Glicko2 (rating this) (deviation this) v (opponents this) (results this)"

text \<open>
  The constructors: \<^verbatim>\<open>Glicko2_impl()\<close> zeroes the three numbers and leaves both vectors
  empty, then the setters run.
\<close>

definition Glicko2_impl :: Glicko2 where
  "Glicko2_impl = Glicko2 0.0 0.0 0.0 [] []"

definition Glicko2_default :: Glicko2 where
  "Glicko2_default =
     SetVolatility (SetDeviation (SetRating Glicko2_impl 1500.0) 350.0) 0.06"

definition Glicko2_of :: "double \<Rightarrow> double \<Rightarrow> double \<Rightarrow> Glicko2" where
  "Glicko2_of r d v = SetVolatility (SetDeviation (SetRating Glicko2_impl r) d) v"

definition ClearResults :: "Glicko2 \<Rightarrow> Glicko2" where
  "ClearResults this = Glicko2 (rating this) (deviation this) (volatility this) [] []"

text \<open>
  \<^verbatim>\<open>AddResult\<close> pushes a copy of the opponent, then the score the \<^verbatim>\<open>switch\<close> selects.
\<close>

definition AddResult :: "Glicko2 \<Rightarrow> Glicko2 \<Rightarrow> RESULT \<Rightarrow> Glicko2" where
  "AddResult this opponent result =
     Glicko2 (rating this) (deviation this) (volatility this)
       (opponents this @ [opponent])
       (results this @ [case result of WIN \<Rightarrow> 1.0 | LOSS \<Rightarrow> 0.0 | DRAW \<Rightarrow> 0.5])"

definition AddWin :: "Glicko2 \<Rightarrow> Glicko2 \<Rightarrow> Glicko2" where
  "AddWin this opponent = AddResult this opponent WIN"

definition AddLoss :: "Glicko2 \<Rightarrow> Glicko2 \<Rightarrow> Glicko2" where
  "AddLoss this opponent = AddResult this opponent LOSS"

definition AddDraw :: "Glicko2 \<Rightarrow> Glicko2 \<Rightarrow> Glicko2" where
  "AddDraw this opponent = AddResult this opponent DRAW"

subsection \<open>Update\<close>

text \<open>
  The three \<^verbatim>\<open>for\<close> loops run \<open>i\<close> over \<open>0 ..< opponents.size()\<close>. The second and the
  third read \<^verbatim>\<open>results[i]\<close>, which is undefined behaviour in the source when the score
  vector is shorter than the opponent vector: the model returns the fault
  \<open>OutOfRange\<close> there.
\<close>

datatype fault = OutOfRange

definition variance_loop :: "Glicko2 \<Rightarrow> double" where
  "variance_loop this =
     fold (\<lambda>i variance.
        let g_i = g (deviation (opponents this ! i));
            E_i = E (rating this) (rating (opponents this ! i)) (deviation (opponents this ! i))
        in variance + g_i * g_i * E_i * (1.0 - E_i))
       [0 ..< length (opponents this)] 0.0"

definition delta_loop :: "Glicko2 \<Rightarrow> fault + double" where
  "delta_loop this =
     fold (\<lambda>i acc.
        case acc of
          Inl f \<Rightarrow> Inl f
        | Inr delta \<Rightarrow>
            if i < length (results this)
            then Inr (delta + g (deviation (opponents this ! i)) *
                   (results this ! i -
                    E (rating this) (rating (opponents this ! i)) (deviation (opponents this ! i))))
            else Inl OutOfRange)
       [0 ..< length (opponents this)] (Inr 0.0)"

definition new_rating_loop :: "Glicko2 \<Rightarrow> fault + double" where
  "new_rating_loop this =
     fold (\<lambda>i acc.
        case acc of
          Inl f \<Rightarrow> Inl f
        | Inr new_rating \<Rightarrow>
            if i < length (results this)
            then Inr (new_rating + g (deviation (opponents this ! i)) *
                   (results this ! i -
                    E (rating this) (rating (opponents this ! i)) (deviation (opponents this ! i))))
            else Inl OutOfRange)
       [0 ..< length (opponents this)] (Inr 0.0)"

text \<open>
  The \<^verbatim>\<open>while\<close> loop that determines the new volatility, on its two variables \<open>x\<close> and
  \<open>x_new\<close>. Its body is \<open>newton_step\<close>: it copies \<open>x_new\<close> into \<open>x\<close> and computes
  the next \<open>x_new\<close> from it. The loop has no other exit than its test, so it is a
  partial function: \<open>None\<close> is the loop that runs forever.

  The call \<^verbatim>\<open>abs(x - x_new)\<close> is unqualified, and the source includes only \<^verbatim>\<open><vector>\<close> and
  \<^verbatim>\<open><cmath>\<close>: which overload it names depends on the C++ library. The model takes the
  absolute value of a double, which is the reading of the specification. With a library
  whose global namespace declares only \<^verbatim>\<open>int abs(int)\<close>, the difference is converted to an
  \<^verbatim>\<open>int\<close> first and the test fails as soon as the two iterates differ by less than 1.
  Every run of this loop that is evaluated below goes through differences that are either
  0 or larger than 3, where the two readings of the test agree.
\<close>

definition newton_step :: "double \<Rightarrow> double \<Rightarrow> double \<Rightarrow> double \<Rightarrow> double \<Rightarrow> double" where
  "newton_step deviation' variance delta a x =
     (let d = deviation' * deviation' + variance + exp_double x;
          h1 = - (x - a) / (dvolatility * dvolatility) - 0.5 * exp_double x / d
               + 0.5 * exp_double x * (delta / d) * (delta / d);
          h2 = - 1.0 / (dvolatility * dvolatility)
               - 0.5 * exp_double x * (deviation' * deviation' + variance) / (d * d)
               + 0.5 * (delta * delta) * exp_double x
                   * ((deviation' * deviation') + variance - exp_double x) / (d * d * d)
      in x - h1 / h2)"

partial_function (option) volatility_loop ::
  "double \<Rightarrow> double \<Rightarrow> double \<Rightarrow> double \<Rightarrow> double \<Rightarrow> double \<Rightarrow> double option" where
  "volatility_loop deviation' variance delta a x x_new =
     (if \<bar>x - x_new\<bar> > 0.0000001 then
        volatility_loop deviation' variance delta a x_new
          (newton_step deviation' variance delta a x_new)
      else Some x_new)"

text \<open>
  \<^verbatim>\<open>Update\<close>: \<open>None\<close> when the volatility loop never ends, the fault when a score is
  read out of range, the updated object otherwise.
\<close>

definition Update :: "Glicko2 \<Rightarrow> (fault + Glicko2) option" where
  "Update this =
     (if length (opponents this) = 0 then Some (Inr this)
      else
        let variance = 1.0 / variance_loop this in
        case delta_loop this of
          Inl f \<Rightarrow> Some (Inl f)
        | Inr delta_sum \<Rightarrow>
            let delta = delta_sum * variance;
                a = log_double (volatility this * volatility this)
            in case volatility_loop (deviation this) variance delta a 0.0 a of
                 None \<Rightarrow> None
               | Some x_new \<Rightarrow>
                   let new_volatility = exp_double (x_new / 2.0);
                       pre_deviation = sqrt_double (deviation this * deviation this
                                         + new_volatility * new_volatility);
                       new_deviation = 1.0 / (sqrt_double (1.0 / (pre_deviation * pre_deviation)
                                         + 1.0 / variance))
                   in case new_rating_loop this of
                        Inl f \<Rightarrow> Some (Inl f)
                      | Inr rating_sum \<Rightarrow>
                          let new_rating = rating_sum * new_deviation * new_deviation;
                              new_rating = new_rating + rating this
                          in Some (Inr (ClearResults
                               (Glicko2 new_rating new_deviation new_volatility
                                  (opponents this) (results this)))))"

subsection \<open>The finite part of the pairwise functions\<close>

text \<open>
  On finite arguments \<^verbatim>\<open>g\<close> and \<^verbatim>\<open>E\<close> stay finite: the square root is taken of a number
  that is at least 1 and the exponential is positive. \<open>g_fin\<close> and \<open>E_fin\<close> are the
  real numbers the two functions compute there.
\<close>

definition g_fin :: "real \<Rightarrow> real" where
  "g_fin phi = 1 / sqrt (1 + 3 * phi * phi / 9.86960440108935861883)"

definition E_fin :: "real \<Rightarrow> real \<Rightarrow> real \<Rightarrow> real" where
  "E_fin mu mu_j phi_j = 1 / (1 + exp (- g_fin phi_j * (mu - mu_j)))"

subsection \<open>The update as the specification words it\<close>

text \<open>
  Section 4.5 of the specification: the log is a list of pairs \<open>(opponent, score)\<close>;
  \<open>g\<^sub>j\<close> and \<open>E\<^sub>j\<close> are computed from each pair, \<open>v\<close> is the inverse of the sum of
  \<open>g\<^sub>j\<^sup>2 E\<^sub>j (1 - E\<^sub>j)\<close>, \<open>\<Delta>\<close> is \<open>v\<close> times the sum of \<open>g\<^sub>j (score\<^sub>j - E\<^sub>j)\<close>, and
  the new deviation and rating follow from the new volatility \<open>sigma'\<close>.
\<close>

definition pending :: "Glicko2 \<Rightarrow> (Glicko2 \<times> double) list" where
  "pending this = zip (opponents this) (results this)"

definition spec_g :: "Glicko2 \<times> double \<Rightarrow> double" where
  "spec_g p = g (deviation (fst p))"

definition spec_E :: "Glicko2 \<Rightarrow> Glicko2 \<times> double \<Rightarrow> double" where
  "spec_E this p = E (rating this) (rating (fst p)) (deviation (fst p))"

definition spec_v :: "Glicko2 \<Rightarrow> double" where
  "spec_v this =
     inverse (\<Sum>p\<leftarrow>pending this. (spec_g p)\<^sup>2 * spec_E this p * (1 - spec_E this p))"

definition spec_residual :: "Glicko2 \<Rightarrow> double" where
  "spec_residual this = (\<Sum>p\<leftarrow>pending this. spec_g p * (snd p - spec_E this p))"

definition spec_delta :: "Glicko2 \<Rightarrow> double" where
  "spec_delta this = spec_v this * spec_residual this"

definition spec_phi_star :: "Glicko2 \<Rightarrow> double \<Rightarrow> double" where
  "spec_phi_star this sigma' = sqrt_double ((deviation this)\<^sup>2 + sigma'\<^sup>2)"

definition spec_phi' :: "Glicko2 \<Rightarrow> double \<Rightarrow> double" where
  "spec_phi' this sigma' =
     1 / sqrt_double (1 / (spec_phi_star this sigma')\<^sup>2 + 1 / spec_v this)"

definition spec_mu' :: "Glicko2 \<Rightarrow> double \<Rightarrow> double" where
  "spec_mu' this sigma' = rating this + (spec_phi' this sigma')\<^sup>2 * spec_residual this"

subsection \<open>A rating period that the update carries through\<close>

text \<open>
  A player at public rating 1500, deviation 243.20492 (1.4 on the internal scale) and
  volatility 0.2 who wins twice against an opponent at rating 1500 and deviation 0.
\<close>

definition example_opponent :: Glicko2 where
  "example_opponent = Glicko2_of 1500.0 0.0 0.06"

definition example_subject :: Glicko2 where
  "example_subject =
     AddWin (AddWin (Glicko2_of 1500.0 243.20492 0.2) example_opponent) example_opponent"

section \<open>Programs over several objects\<close>

text \<open>
  A caller holds several \<^verbatim>\<open>Glicko2\<close> objects, named here by numbers, and calls the public
  operations on them one after the other. The store maps the name of every object that
  has been constructed to its value. \<^verbatim>\<open>AddResult\<close> takes its opponent by reference and
  pushes a copy: the call reads the opponent's value in the store at that moment.
\<close>

type_synonym store = "nat \<rightharpoonup> Glicko2"

datatype call =
    New nat
  | New_of nat double double double
  | New_copy nat nat
  | Assign nat nat
  | Call_SetRating nat double
  | Call_SetDeviation nat double
  | Call_SetVolatility nat double
  | Call_ClearResults nat
  | Call_AddResult nat nat RESULT
  | Call_AddWin nat nat
  | Call_AddLoss nat nat
  | Call_AddDraw nat nat
  | Call_Update nat

text \<open>The object a call constructs or mutates.\<close>

fun target :: "call \<Rightarrow> nat" where
  "target (New x) = x"
| "target (New_of x r d v) = x"
| "target (New_copy x y) = x"
| "target (Assign x y) = x"
| "target (Call_SetRating x r) = x"
| "target (Call_SetDeviation x d) = x"
| "target (Call_SetVolatility x v) = x"
| "target (Call_ClearResults x) = x"
| "target (Call_AddResult x y r) = x"
| "target (Call_AddWin x y) = x"
| "target (Call_AddLoss x y) = x"
| "target (Call_AddDraw x y) = x"
| "target (Call_Update x) = x"

text \<open>
  A method call on one object, with another object as its argument where the method
  takes one. \<open>None\<close>: an object the call names has not been constructed.
\<close>

definition on_object :: "store \<Rightarrow> nat \<Rightarrow> (Glicko2 \<Rightarrow> Glicko2) \<Rightarrow> store option" where
  "on_object st x f = (case st x of None \<Rightarrow> None | Some this \<Rightarrow> Some (st(x \<mapsto> f this)))"

definition on_objects ::
  "store \<Rightarrow> nat \<Rightarrow> nat \<Rightarrow> (Glicko2 \<Rightarrow> Glicko2 \<Rightarrow> Glicko2) \<Rightarrow> store option" where
  "on_objects st x y f =
     (case st x of
        None \<Rightarrow> None
      | Some this \<Rightarrow>
          (case st y of None \<Rightarrow> None | Some other \<Rightarrow> Some (st(x \<mapsto> f this other))))"

text \<open>
  One call. The copy constructor and the copy assignment copy the whole implementation
  of the right-hand side. \<open>None\<close> for \<^verbatim>\<open>Update\<close>: the call does not return, or it reads
  a score out of range.
\<close>

fun exec :: "call \<Rightarrow> store \<Rightarrow> store option" where
  "exec (New x) st = Some (st(x \<mapsto> Glicko2_default))"
| "exec (New_of x r d v) st = Some (st(x \<mapsto> Glicko2_of r d v))"
| "exec (New_copy x y) st =
     (case st y of None \<Rightarrow> None | Some rhs \<Rightarrow> Some (st(x \<mapsto> rhs)))"
| "exec (Assign x y) st = on_objects st x y (\<lambda>this rhs. rhs)"
| "exec (Call_SetRating x r) st = on_object st x (\<lambda>this. SetRating this r)"
| "exec (Call_SetDeviation x d) st = on_object st x (\<lambda>this. SetDeviation this d)"
| "exec (Call_SetVolatility x v) st = on_object st x (\<lambda>this. SetVolatility this v)"
| "exec (Call_ClearResults x) st = on_object st x ClearResults"
| "exec (Call_AddResult x y r) st = on_objects st x y (\<lambda>this opponent. AddResult this opponent r)"
| "exec (Call_AddWin x y) st = on_objects st x y AddWin"
| "exec (Call_AddLoss x y) st = on_objects st x y AddLoss"
| "exec (Call_AddDraw x y) st = on_objects st x y AddDraw"
| "exec (Call_Update x) st =
     (case st x of
        None \<Rightarrow> None
      | Some this \<Rightarrow>
          (case Update this of
             Some (Inr this') \<Rightarrow> Some (st(x \<mapsto> this'))
           | _ \<Rightarrow> None))"

fun run :: "call list \<Rightarrow> store \<Rightarrow> store option" where
  "run [] st = Some st"
| "run (c # cs) st = (case exec c st of None \<Rightarrow> None | Some st' \<Rightarrow> run cs st')"

text \<open>The two vectors of an object have the same length.\<close>

definition paired :: "Glicko2 \<Rightarrow> bool" where
  "paired this \<longleftrightarrow> length (opponents this) = length (results this)"

text \<open>
  Two programs used below: one that takes the example player through a rating period
  and records a draw after it, and a store in which the example player has recorded the
  first of its two wins.
\<close>

definition example_calls :: "call list" where
  "example_calls =
     [New_of 0 1500.0 243.20492 0.2, New_of 1 1500.0 0.0 0.06,
      Call_AddWin 0 1, Call_AddWin 0 1, Call_Update 0, Call_AddDraw 0 1]"

definition example_store :: store where
  "example_store =
     [0 \<mapsto> AddWin (Glicko2_of 1500.0 243.20492 0.2) example_opponent,
      1 \<mapsto> example_opponent]"

definition example_mutations :: "call list" where
  "example_mutations =
     [Call_SetRating 1 1900.0, Call_AddLoss 1 0, Call_SetDeviation 1 30.0,
      Call_SetVolatility 1 0.07]"

subsection \<open>A player whose volatility is 1\<close>

text \<open>
  A player at volatility 1.0 (public deviation 173.7178, which is 1 on the internal
  scale) with one win against the example opponent.
\<close>

definition unit_volatility_subject :: Glicko2 where
  "unit_volatility_subject = AddWin (Glicko2_of 1500.0 173.7178 1.0) example_opponent"

subsection \<open>The volatility loop, cut after a number of tests\<close>

text \<open>
  The same loop with a bound on the number of times its test is evaluated: \<open>None\<close> when
  the bound is reached before the test fails. The source has no such bound; this
  function only counts the iterations of the source's loop.
\<close>

fun volatility_loop_within ::
  "nat \<Rightarrow> double \<Rightarrow> double \<Rightarrow> double \<Rightarrow> double \<Rightarrow> double \<Rightarrow> double \<Rightarrow> double option" where
  "volatility_loop_within 0 deviation' variance delta a x x_new = None"
| "volatility_loop_within (Suc n) deviation' variance delta a x x_new =
     (if \<bar>x - x_new\<bar> > 0.0000001 then
        volatility_loop_within n deviation' variance delta a x_new
          (newton_step deviation' variance delta a x_new)
      else Some x_new)"

subsection \<open>The finite part of the Newton step\<close>

text \<open>
  On finite arguments the body of the volatility loop computes \<open>x - h1 / h2\<close> with the
  real numbers \<open>h1_fin\<close> and \<open>h2_fin\<close>, and stays finite unless \<open>h2_fin\<close> is zero.
\<close>

definition d_fin :: "real \<Rightarrow> real \<Rightarrow> real \<Rightarrow> real" where
  "d_fin phi v x = phi * phi + v + exp x"

definition h1_fin :: "real \<Rightarrow> real \<Rightarrow> real \<Rightarrow> real \<Rightarrow> real \<Rightarrow> real" where
  "h1_fin phi v delta a x =
     - (x - a) / (0.3 * 0.3) - 0.5 * exp x / d_fin phi v x
     + 0.5 * exp x * (delta / d_fin phi v x) * (delta / d_fin phi v x)"

definition h2_fin :: "real \<Rightarrow> real \<Rightarrow> real \<Rightarrow> real \<Rightarrow> real" where
  "h2_fin phi v delta x =
     - 1 / (0.3 * 0.3) - 0.5 * exp x * (phi * phi + v) / (d_fin phi v x * d_fin phi v x)
     + 0.5 * (delta * delta) * exp x * (phi * phi + v - exp x)
         / (d_fin phi v x * d_fin phi v x * d_fin phi v x)"

subsection \<open>A player whose update never returns\<close>

text \<open>
  \<open>winning_streak n this opponent\<close> calls \<^verbatim>\<open>this.AddWin(opponent)\<close> \<open>n\<close> times. The player
  below has public rating 1500, deviation 3.474356 (0.02 on the internal scale) and the
  default volatility 0.06, and has won 250 games against an opponent at rating 1500 and
  deviation 0.
\<close>

definition winning_streak :: "nat \<Rightarrow> Glicko2 \<Rightarrow> Glicko2 \<Rightarrow> Glicko2" where
  "winning_streak n this opponent = ((\<lambda>this. AddWin this opponent) ^^ n) this"

definition cycling_subject :: Glicko2 where
  "cycling_subject = winning_streak 250 (Glicko2_of 1500.0 3.474356 0.06) example_opponent"

text \<open>
  For this player the loop's \<open>h1\<close> and \<open>h2\<close> at \<open>x = a + y\<close> are \<open>- y / 0.09 + cycle_A e\<close> and
  \<open>- 1 / 0.09 + cycle_B e\<close>, where \<open>e = exp y\<close>.
\<close>

definition cycle_A :: "real \<Rightarrow> real" where
  "cycle_A e = 9 * e * (9959 - 9 * e) / (2 * (41 + 9 * e)\<^sup>2)"

definition cycle_B :: "real \<Rightarrow> real" where
  "cycle_B e = 9 * e * (408319 - 90369 * e) / (2 * (41 + 9 * e) ^ 3)"

subsection \<open>The volatility solver as the specification words it\<close>

text \<open>
  Section 4.4 of the specification: \<open>a = ln (sigma\<^sup>2)\<close>, start at \<open>x = a\<close>; repeat
  \<open>x_next = x - h1 / h2\<close>; stop when \<open>|x_next - x| \<le> 1e-7\<close>; return \<open>exp (x_next / 2)\<close>.
  The first comparison is made after the first step.
\<close>

definition spec_h1 :: "double \<Rightarrow> double \<Rightarrow> double \<Rightarrow> double \<Rightarrow> double \<Rightarrow> double \<Rightarrow> double" where
  "spec_h1 phi v delta a tau x =
     (let d = phi\<^sup>2 + v + exp_double x
      in - (x - a) / tau\<^sup>2 - 0.5 * exp_double x / d + 0.5 * exp_double x * (delta / d)\<^sup>2)"

definition spec_h2 :: "double \<Rightarrow> double \<Rightarrow> double \<Rightarrow> double \<Rightarrow> double \<Rightarrow> double" where
  "spec_h2 phi v delta tau x =
     (let d = phi\<^sup>2 + v + exp_double x
      in - 1 / tau\<^sup>2 - 0.5 * exp_double x * (phi\<^sup>2 + v) / d\<^sup>2
         + 0.5 * delta\<^sup>2 * exp_double x * (phi\<^sup>2 + v - exp_double x) / d ^ 3)"

partial_function (option) spec_iterate ::
  "double \<Rightarrow> double \<Rightarrow> double \<Rightarrow> double \<Rightarrow> double \<Rightarrow> double \<Rightarrow> double option" where
  "spec_iterate phi v delta a tau x =
     (let x_next = x - spec_h1 phi v delta a tau x / spec_h2 phi v delta tau x
      in if \<bar>x_next - x\<bar> \<le> 0.0000001 then Some (exp_double (x_next / 2))
         else spec_iterate phi v delta a tau x_next)"

definition VolatilitySolver :: "double \<Rightarrow> double \<Rightarrow> double \<Rightarrow> double \<Rightarrow> double \<Rightarrow> double option" where
  "VolatilitySolver phi v delta sigma tau =
     (let a = log_double (sigma\<^sup>2) in spec_iterate phi v delta a tau a)"

section \<open>Binary64 arithmetic\<close>

text \<open>
  What the claims say about the numbers themselves (the range of \<^verbatim>\<open>E\<close>, the round trip
  between the two scales, the sign of the terms of the variance step) is decided by
  rounding. IEEE 754 defines an operation on doubles as the exact operation followed by
  rounding to the nearest double, ties to the even significand, and overflow to an
  infinity. This section models that: the functions of the source are written a second
  time, over a type \<open>binary64\<close> whose operations round.

  A double is \<open>m * 2^e\<close> with \<open>\<bar>m\<bar> < 2^53\<close> and \<open>-1074 \<le> e \<le> 971\<close>. Around a real number
  \<open>x\<close> the doubles are \<open>quantum x\<close> apart, \<open>nearest x\<close> is the multiple of the quantum nearest
  to \<open>x\<close>, and \<open>round_real x\<close> is that number, or an infinity when it is \<open>2^1024\<close> or more in
  magnitude. The two zeros are one, as before.
\<close>

definition round_even :: "real \<Rightarrow> int" where
  "round_even q =
     (let f = \<lfloor>q\<rfloor> in
      if q - of_int f < 1/2 then f
      else if 1/2 < q - of_int f then f + 1
      else if even f then f else f + 1)"

definition quantum :: "real \<Rightarrow> real" where
  "quantum x =
     (if x = 0 then 2 powi (- 1074) else 2 powi (max (\<lfloor>log 2 \<bar>x\<bar>\<rfloor> - 52) (- 1074)))"

definition nearest :: "real \<Rightarrow> real" where
  "nearest x = of_int (round_even (x / quantum x)) * quantum x"

definition round_real :: "real \<Rightarrow> double" where
  "round_real x =
     (if 2 ^ 1024 \<le> \<bar>nearest x\<bar> then (if 0 < x then PInf else NInf) else Fin (nearest x))"

fun round_double :: "double \<Rightarrow> double" where
  "round_double (Fin x) = round_real x"
| "round_double PInf = PInf"
| "round_double NInf = NInf"
| "round_double NaN = NaN"

datatype binary64 = Binary64 (double_of: double)

instantiation binary64 :: "{zero, one, plus, uminus, minus, times, divide, abs, ord}"
begin

definition zero_binary64 :: binary64 where
  "zero_binary64 = Binary64 (Fin 0)"

definition one_binary64 :: binary64 where
  "one_binary64 = Binary64 (Fin 1)"

fun plus_binary64 :: "binary64 \<Rightarrow> binary64 \<Rightarrow> binary64" where
  "plus_binary64 (Binary64 x) (Binary64 y) = Binary64 (round_double (x + y))"

fun uminus_binary64 :: "binary64 \<Rightarrow> binary64" where
  "uminus_binary64 (Binary64 x) = Binary64 (- x)"

fun minus_binary64 :: "binary64 \<Rightarrow> binary64 \<Rightarrow> binary64" where
  "minus_binary64 (Binary64 x) (Binary64 y) = Binary64 (round_double (x - y))"

fun times_binary64 :: "binary64 \<Rightarrow> binary64 \<Rightarrow> binary64" where
  "times_binary64 (Binary64 x) (Binary64 y) = Binary64 (round_double (x * y))"

fun divide_binary64 :: "binary64 \<Rightarrow> binary64 \<Rightarrow> binary64" where
  "divide_binary64 (Binary64 x) (Binary64 y) = Binary64 (round_double (x div y))"

fun abs_binary64 :: "binary64 \<Rightarrow> binary64" where
  "abs_binary64 (Binary64 x) = Binary64 \<bar>x\<bar>"

fun less_binary64 :: "binary64 \<Rightarrow> binary64 \<Rightarrow> bool" where
  "less_binary64 (Binary64 x) (Binary64 y) = (x < y)"

fun less_eq_binary64 :: "binary64 \<Rightarrow> binary64 \<Rightarrow> bool" where
  "less_eq_binary64 (Binary64 x) (Binary64 y) = (x \<le> y)"

instance ..

end

instantiation binary64 :: inverse
begin

definition inverse_binary64 :: "binary64 \<Rightarrow> binary64" where
  "inverse_binary64 x = 1 div x"

instance ..

end

text \<open>
  A decimal literal of the source is the double nearest to it. The functions of
  \<^verbatim>\<open><cmath>\<close> are taken as correctly rounded.
\<close>

definition lit :: "real \<Rightarrow> binary64" where
  "lit x = Binary64 (round_real x)"

fun exp64 :: "binary64 \<Rightarrow> binary64" where
  "exp64 (Binary64 x) = Binary64 (round_double (exp_double x))"


fun sqrt64 :: "binary64 \<Rightarrow> binary64" where
  "sqrt64 (Binary64 x) = Binary64 (round_double (sqrt_double x))"

text \<open>The largest double, \<^verbatim>\<open>DBL_MAX\<close> of \<^verbatim>\<open><cfloat>\<close>.\<close>

definition DBL_MAX :: binary64 where
  "DBL_MAX = Binary64 (Fin ((2 ^ 53 - 1) * 2 ^ 971))"

subsection \<open>The pairwise functions and the accessors over binary64\<close>

definition PI_SQUARED64 :: binary64 where
  "PI_SQUARED64 = lit 9.86960440108935861883"

definition g64 :: "binary64 \<Rightarrow> binary64" where
  "g64 deviation' =
     lit 1.0 / (sqrt64 (lit 1.0 + lit 3.0 * deviation' * deviation' / PI_SQUARED64))"

definition E64 :: "binary64 \<Rightarrow> binary64 \<Rightarrow> binary64 \<Rightarrow> binary64" where
  "E64 rating' rating_opponent deviation_opponent =
     lit 1.0 / (lit 1.0 + exp64 (- g64 deviation_opponent * (rating' - rating_opponent)))"

datatype Glicko2_64 =
  Glicko2_64 (rating64: binary64) (deviation64: binary64) (volatility64: binary64)
    (opponents64: "Glicko2_64 list") (results64: "binary64 list")

definition GetRating64 :: "Glicko2_64 \<Rightarrow> binary64" where
  "GetRating64 this = rating64 this * lit 173.7178 + lit 1500.0"

definition GetDeviation64 :: "Glicko2_64 \<Rightarrow> binary64" where
  "GetDeviation64 this = deviation64 this * lit 173.7178"

definition SetRating64 :: "Glicko2_64 \<Rightarrow> binary64 \<Rightarrow> Glicko2_64" where
  "SetRating64 this r =
     Glicko2_64 ((r - lit 1500.0) / lit 173.7178) (deviation64 this) (volatility64 this)
       (opponents64 this) (results64 this)"

definition SetDeviation64 :: "Glicko2_64 \<Rightarrow> binary64 \<Rightarrow> Glicko2_64" where
  "SetDeviation64 this d =
     Glicko2_64 (rating64 this) (d / lit 173.7178) (volatility64 this)
       (opponents64 this) (results64 this)"

definition Glicko2_impl64 :: Glicko2_64 where
  "Glicko2_impl64 = Glicko2_64 (lit 0.0) (lit 0.0) (lit 0.0) [] []"

subsection \<open>Update over binary64\<close>

















section \<open>Properties\<close>

subsection \<open>Literals\<close>

lemma numeral_double: "(numeral k :: double) = Fin (numeral k)"
proof (induction k)
  case One
  show ?case by (simp add: one_double_def)
next
  case (Bit0 k)
  have "(numeral (Num.Bit0 k) :: double) = numeral k + numeral k"
    by (rule numeral_Bit0)
  also have "\<dots> = Fin (numeral k) + Fin (numeral k)"
    by (simp only: Bit0)
  also have "\<dots> = Fin (numeral k + numeral k)"
    by simp
  also have "\<dots> = Fin (numeral (Num.Bit0 k))"
    by (simp only: numeral_Bit0)
  finally show ?case .
next
  case (Bit1 k)
  have "(numeral (Num.Bit1 k) :: double) = numeral k + numeral k + 1"
    by (rule numeral_Bit1)
  also have "\<dots> = Fin (numeral k) + Fin (numeral k) + Fin 1"
    by (simp only: Bit1 one_double_def)
  also have "\<dots> = Fin (numeral k + numeral k + 1)"
    by simp
  also have "\<dots> = Fin (numeral (Num.Bit1 k))"
    by (simp only: numeral_Bit1)
  finally show ?case .
qed

lemma Fin_power: "Fin x ^ n = Fin (x ^ n)"
  by (induction n) (simp_all add: one_double_def)

lemmas double_simps =
  numeral_double zero_double_def one_double_def Fin_power minus_double_def inverse_double_def

subsection \<open>The expected score\<close>

lemma g_fin_pos: "0 < g_fin phi"
  by (simp add: g_fin_def add_pos_nonneg)

lemma g_Fin: "g (Fin phi) = Fin (g_fin phi)"
proof -
  have "0 < 1 + 3 * phi * phi / 9.86960440108935861883"
    by (simp add: add_pos_nonneg)
  then show ?thesis
    by (simp add: g_def g_fin_def PI_SQUARED_def double_simps)
qed

lemma E_fin_bounds: "0 < E_fin mu mu_j phi_j" "E_fin mu mu_j phi_j < 1"
  by (simp_all add: E_fin_def add_pos_pos)

lemma E_Fin: "E (Fin mu) (Fin mu_j) (Fin phi_j) = Fin (E_fin mu mu_j phi_j)"
proof -
  have "1 + exp (- g_fin phi_j * (mu - mu_j)) \<noteq> 0"
    using exp_gt_zero [of "- g_fin phi_j * (mu - mu_j)"] by linarith
  then show ?thesis
    by (simp add: E_def E_fin_def g_Fin double_simps)
qed

subsection \<open>Update on an empty log\<close>

text \<open>
  Claim C3. When no opponent is pending, \<^verbatim>\<open>Update\<close> returns at once and the object is
  unchanged: the same rating, deviation and volatility, whatever values they hold, and
  the same (empty) log.
\<close>

theorem Update_empty_noop: "opponents this = [] \<Longrightarrow> Update this = Some (Inr this)"
  by (simp add: Update_def)

theorem Update_empty_noop_witness:
  "opponents Glicko2_default = [] \<and> Update Glicko2_default = Some (Inr Glicko2_default)"
proof -
  have h: "opponents Glicko2_default = []"
    by (simp add: Glicko2_default_def SetVolatility_def SetDeviation_def SetRating_def
        Glicko2_impl_def)
  show ?thesis using h Update_empty_noop [OF h] by simp
qed

subsection \<open>What Update computes\<close>

lemma literals:
  "(0.0 :: double) = 0" "(1.0 :: double) = 1" "(2.0 :: double) = 2" "(3.0 :: double) = 3"
  by (simp_all add: double_simps)

lemma fold_plus_sum_list:
  fixes f :: "'a \<Rightarrow> double"
  shows "fold (\<lambda>i acc. acc + f i) xs s = s + sum_list (map f xs)"
  by (induction xs arbitrary: s) (simp_all add: add.assoc)

lemma fold_checked_sum_list:
  fixes f :: "nat \<Rightarrow> double"
  assumes "\<forall>i \<in> set xs. i < n"
  shows "fold (\<lambda>i acc. case acc of Inl e \<Rightarrow> Inl e
                        | Inr t \<Rightarrow> if i < n then Inr (t + f i) else Inl OutOfRange)
           xs (Inr s) = Inr (s + sum_list (map f xs))"
  using assms by (induction xs arbitrary: s) (simp_all add: add.assoc)

lemma map_index_zip:
  assumes "length os \<le> length rs"
  shows "map (\<lambda>i. F (os ! i) (rs ! i)) [0 ..< length os] = map (\<lambda>p. F (fst p) (snd p)) (zip os rs)"
  using assms by (intro nth_equalityI) simp_all

lemma variance_loop_sum:
  assumes "length (opponents this) \<le> length (results this)"
  shows "variance_loop this =
         (\<Sum>p\<leftarrow>pending this. (spec_g p)\<^sup>2 * spec_E this p * (1 - spec_E this p))"
proof -
  let ?F = "\<lambda>opp (s::double). g (deviation opp) * g (deviation opp)
              * E (rating this) (rating opp) (deviation opp)
              * (1 - E (rating this) (rating opp) (deviation opp))"
  have "variance_loop this =
        sum_list (map (\<lambda>i. ?F (opponents this ! i) (results this ! i))
                    [0 ..< length (opponents this)])"
    by (simp add: variance_loop_def Let_def fold_plus_sum_list literals)
  also have "\<dots> = sum_list (map (\<lambda>p. ?F (fst p) (snd p)) (pending this))"
    unfolding pending_def by (subst map_index_zip [OF assms]) (rule refl)
  finally show ?thesis
    by (simp add: spec_g_def spec_E_def power2_eq_square)
qed

lemma delta_loop_sum:
  assumes "length (opponents this) \<le> length (results this)"
  shows "delta_loop this = Inr (spec_residual this)"
proof -
  let ?F = "\<lambda>opp s. g (deviation opp) * (s - E (rating this) (rating opp) (deviation opp))"
  have "\<forall>i \<in> set [0 ..< length (opponents this)]. i < length (results this)"
    using assms by simp
  then have "delta_loop this =
        Inr (0.0 + sum_list (map (\<lambda>i. ?F (opponents this ! i) (results this ! i))
                  [0 ..< length (opponents this)]))"
    unfolding delta_loop_def by (rule fold_checked_sum_list)
  also have "\<dots> = Inr (0.0 + sum_list (map (\<lambda>p. ?F (fst p) (snd p)) (pending this)))"
    unfolding pending_def by (subst map_index_zip [OF assms]) (rule refl)
  finally show ?thesis
    by (simp add: spec_residual_def spec_g_def spec_E_def literals)
qed

lemma new_rating_loop_delta_loop: "new_rating_loop this = delta_loop this"
  by (simp add: new_rating_loop_def delta_loop_def)

lemma Update_nonempty:
  assumes "opponents this \<noteq> []" and "length (opponents this) \<le> length (results this)"
  shows "Update this =
         map_option
           (\<lambda>x_new. Inr (Glicko2 (spec_mu' this (exp_double (x_new / 2)))
                                 (spec_phi' this (exp_double (x_new / 2)))
                                 (exp_double (x_new / 2)) [] []))
           (volatility_loop (deviation this) (spec_v this) (spec_delta this)
              (log_double (volatility this * volatility this)) 0
              (log_double (volatility this * volatility this)))"
proof -
  have v: "1 / variance_loop this = spec_v this"
    by (simp add: variance_loop_sum [OF assms(2)] spec_v_def inverse_double_def literals)
  show ?thesis
    using assms(1)
    by (simp add: Update_def Let_def v literals delta_loop_sum [OF assms(2)]
        new_rating_loop_delta_loop
        spec_delta_def spec_mu'_def spec_phi'_def spec_phi_star_def ClearResults_def
        power2_eq_square mult_ac add_ac split: option.split)
qed

lemma example_opponent_eq: "example_opponent = Glicko2 (Fin 0) (Fin 0) (Fin 0.06) [] []"
  by (simp add: example_opponent_def Glicko2_of_def SetVolatility_def SetDeviation_def
      SetRating_def Glicko2_impl_def double_simps)

lemma example_subject_eq:
  "example_subject =
   Glicko2 (Fin 0) (Fin (7/5)) (Fin (1/5)) [example_opponent, example_opponent] [Fin 1, Fin 1]"
  by (simp add: example_subject_def AddWin_def AddResult_def Glicko2_of_def SetVolatility_def
      SetDeviation_def SetRating_def Glicko2_impl_def double_simps)

lemma g_zero: "g (Fin 0) = Fin 1"
  by (simp add: g_Fin g_fin_def)

lemma E_equal_zero: "E (Fin mu) (Fin mu) (Fin 0) = Fin (1/2)"
  by (simp add: E_Fin E_fin_def)

lemma example_v: "spec_v example_subject = Fin 2"
  by (simp add: spec_v_def pending_def example_subject_eq example_opponent_eq spec_g_def
      spec_E_def g_zero E_equal_zero double_simps)

lemma example_residual: "spec_residual example_subject = Fin 1"
  by (simp add: spec_residual_def pending_def example_subject_eq example_opponent_eq spec_g_def
      spec_E_def g_zero E_equal_zero double_simps)

lemma example_delta: "spec_delta example_subject = Fin 2"
  by (simp add: spec_delta_def example_v example_residual)

lemma example_a:
  "log_double (volatility example_subject * volatility example_subject) = Fin (- ln 25)"
proof -
  have "ln (1 / 25 :: real) = - ln 25"
    by (simp add: ln_div)
  then show ?thesis
    by (simp add: example_subject_eq)
qed

lemma ln_25_gt: "1 / 10 ^ 7 < ln (25 :: real)"
proof -
  have "1 \<le> ln (25 :: real)"
    using ln_ge_iff [of 25 1] exp_le by simp
  then show ?thesis by simp
qed

lemma example_step:
  "newton_step (Fin (7/5)) (Fin 2) (Fin 2) (Fin (- ln 25)) (Fin (- ln 25)) = Fin (- ln 25)"
proof -
  have e: "exp (- ln (25 :: real)) = 1 / 25"
    by (simp add: exp_minus inverse_eq_divide)
  show ?thesis
    by (simp add: newton_step_def Let_def dvolatility_def e double_simps)
qed

lemma example_loop:
  "volatility_loop (Fin (7/5)) (Fin 2) (Fin 2) (Fin (- ln 25)) 0 (Fin (- ln 25))
   = Some (Fin (- ln 25))"
proof -
  have "volatility_loop (Fin (7/5)) (Fin 2) (Fin 2) (Fin (- ln 25)) 0 (Fin (- ln 25))
        = volatility_loop (Fin (7/5)) (Fin 2) (Fin 2) (Fin (- ln 25)) (Fin (- ln 25)) (Fin (- ln 25))"
    using ln_25_gt
    by (subst volatility_loop.simps) (simp add: example_step double_simps)
  also have "\<dots> = Some (Fin (- ln 25))"
    by (subst volatility_loop.simps) (simp add: double_simps)
  finally show ?thesis .
qed

lemma example_sigma: "exp_double (Fin (- ln 25) / 2) = Fin (1/5)"
proof -
  have "ln (25 :: real) = 2 * ln 5"
    using ln_realpow [of 5 2] by simp
  then have "exp (- ln (25 :: real) / 2) = 1 / 5"
    by (simp add: exp_minus inverse_eq_divide)
  then show ?thesis
    by (simp add: double_simps)
qed

lemma example_fields:
  "rating example_subject = Fin 0" "deviation example_subject = Fin (7/5)"
  "opponents example_subject \<noteq> []"
  "length (opponents example_subject) \<le> length (results example_subject)"
  by (simp_all add: example_subject_eq)

lemma example_phi': "spec_phi' example_subject (Fin (1/5)) = Fin 1"
  by (simp add: spec_phi'_def spec_phi_star_def example_v example_fields double_simps
      power2_eq_square)

lemma example_mu': "spec_mu' example_subject (Fin (1/5)) = Fin 1"
  by (simp add: spec_mu'_def example_phi' example_residual example_fields double_simps)

lemma example_Update:
  "Update example_subject = Some (Inr (Glicko2 (Fin 1) (Fin 1) (Fin (1/5)) [] []))"
  by (simp add: Update_nonempty [OF example_fields(3,4)] example_fields example_v example_delta
      example_a example_loop example_sigma example_mu' example_phi')

text \<open>
  Claim C1 as amended. On a non-empty log (with a score for every opponent) the loops of
  \<^verbatim>\<open>Update\<close> compute the aggregates of the specification, \<open>v = (\<Sum>j. g\<^sub>j\<^sup>2 E\<^sub>j (1 - E\<^sub>j))\<^sup>-\<^sup>1\<close> and
  \<open>\<Delta> = v * (\<Sum>j. g\<^sub>j * (score\<^sub>j - E\<^sub>j))\<close>: the sums of the source's loops are the sums over the
  recorded pairs. Whenever \<^verbatim>\<open>Update\<close> returns, it has committed a volatility \<open>sigma'\<close>
  together with the deviation \<open>phi' = 1 / sqrt (1 / phi_star\<^sup>2 + 1 / v)\<close>, where
  \<open>phi_star = sqrt (deviation\<^sup>2 + sigma'\<^sup>2)\<close>, and the rating
  \<open>mu' = rating + phi'\<^sup>2 * (\<Sum>j. g\<^sub>j * (score\<^sub>j - E\<^sub>j))\<close>, and it has cleared the log. That
  \<^verbatim>\<open>Update\<close> returns is a hypothesis: it does not on every non-empty log (see below).
\<close>

theorem Update_computes_spec_values:
  assumes "opponents this \<noteq> []" and "length (opponents this) \<le> length (results this)"
    and "Update this = Some (Inr this')"
  shows "1.0 / variance_loop this = spec_v this
         \<and> map_sum id (\<lambda>delta. delta * (1.0 / variance_loop this)) (delta_loop this)
             = Inr (spec_delta this)
         \<and> this' = Glicko2 (spec_mu' this (volatility this'))
                          (spec_phi' this (volatility this')) (volatility this') [] []"
proof -
  have v: "1.0 / variance_loop this = spec_v this"
    by (simp add: variance_loop_sum [OF assms(2)] spec_v_def inverse_double_def literals)
  have "map_sum id (\<lambda>delta. delta * spec_v this) (delta_loop this)
        = Inr (spec_delta this)"
    by (simp add: delta_loop_sum [OF assms(2)] spec_delta_def mult.commute)
  then have d: "map_sum id (\<lambda>delta. delta * (1.0 / variance_loop this)) (delta_loop this)
        = Inr (spec_delta this)"
    by (simp only: v)
  from assms(3) obtain x_new
    where "this' = Glicko2 (spec_mu' this (exp_double (x_new / 2)))
                     (spec_phi' this (exp_double (x_new / 2))) (exp_double (x_new / 2)) [] []"
    by (auto simp: Update_nonempty [OF assms(1,2)])
  then have "this' = Glicko2 (spec_mu' this (volatility this'))
                       (spec_phi' this (volatility this')) (volatility this') [] []"
    by simp
  with v d show ?thesis
    by (simp only: simp_thms)
qed

theorem Update_computes_spec_values_witness:
  "opponents example_subject \<noteq> []
   \<and> length (opponents example_subject) \<le> length (results example_subject)
   \<and> Update example_subject = Some (Inr (Glicko2 (Fin 1) (Fin 1) (Fin (1/5)) [] []))
   \<and> 1.0 / variance_loop example_subject = Fin 2
   \<and> map_sum id (\<lambda>delta. delta * (1.0 / variance_loop example_subject))
         (delta_loop example_subject) = Inr (Fin 2)
   \<and> spec_mu' example_subject (Fin (1/5)) = Fin 1
   \<and> spec_phi' example_subject (Fin (1/5)) = Fin 1"
proof -
  note computed = Update_computes_spec_values [OF example_fields(3,4) example_Update]
  have v: "1.0 / variance_loop example_subject = Fin 2"
    using computed [THEN conjunct1] by (simp only: example_v)
  have d: "map_sum id (\<lambda>delta. delta * (1.0 / variance_loop example_subject))
         (delta_loop example_subject) = Inr (Fin 2)"
    using computed [THEN conjunct2, THEN conjunct1] by (simp only: example_delta)
  show ?thesis
    by (intro conjI example_fields(3,4) example_Update v d example_mu' example_phi')
qed

subsection \<open>The two vectors stay paired\<close>

lemma paired_constructors: "paired Glicko2_default" "paired (Glicko2_of r d v)"
  by (simp_all add: paired_def Glicko2_default_def Glicko2_of_def SetVolatility_def
      SetDeviation_def SetRating_def Glicko2_impl_def)

lemma paired_setters:
  "paired (SetRating this r) = paired this"
  "paired (SetDeviation this d) = paired this"
  "paired (SetVolatility this v) = paired this"
  by (simp_all add: paired_def SetRating_def SetDeviation_def SetVolatility_def)

lemma paired_ClearResults: "paired (ClearResults this)"
  by (simp add: paired_def ClearResults_def)

lemma AddResult_lengths:
  "length (opponents (AddResult this opponent r)) = Suc (length (opponents this))"
  "length (results (AddResult this opponent r)) = Suc (length (results this))"
  by (simp_all add: AddResult_def)

lemma paired_AddResult: "paired (AddResult this opponent r) = paired this"
  by (simp add: paired_def AddResult_lengths)

lemma Update_returns_cleared:
  assumes "paired this" and "Update this = Some (Inr this')"
  shows "opponents this' = [] \<and> results this' = []"
proof (cases "opponents this = []")
  case True
  with assms show ?thesis by (simp add: Update_def paired_def)
next
  case False
  with assms show ?thesis
    by (auto simp: Update_nonempty paired_def)
qed

lemma Update_in_range:
  assumes "paired this"
  shows "Update this \<noteq> Some (Inl OutOfRange)"
proof (cases "opponents this = []")
  case True
  then show ?thesis by (simp add: Update_def)
next
  case False
  with assms show ?thesis
    by (auto simp: Update_nonempty paired_def)
qed

lemma exec_paired:
  assumes "\<forall>x this. st x = Some this \<longrightarrow> paired this" and "exec c st = Some st'"
  shows "\<forall>x this. st' x = Some this \<longrightarrow> paired this"
proof (cases c)
  case (Call_Update x)
  with assms show ?thesis
    by (auto simp: paired_def split: option.splits sum.splits if_splits
        dest!: Update_returns_cleared [unfolded paired_def, rotated])
next
  case (New x)
  with assms show ?thesis by (auto simp: paired_constructors split: if_splits)
next
  case (New_of x r d v)
  with assms show ?thesis by (auto simp: paired_constructors split: if_splits)
qed (use assms in \<open>auto simp: on_object_def on_objects_def paired_setters paired_ClearResults
      paired_AddResult AddWin_def AddLoss_def AddDraw_def split: option.splits if_splits\<close>)

lemma run_paired:
  assumes "\<forall>x this. st x = Some this \<longrightarrow> paired this" and "run cs st = Some st'"
  shows "\<forall>x this. st' x = Some this \<longrightarrow> paired this"
  using assms
proof (induction cs arbitrary: st)
  case Nil
  then show ?case by simp
next
  case (Cons c cs)
  from Cons.prems(2) obtain st1 where c: "exec c st = Some st1" and cs: "run cs st1 = Some st'"
    by (auto split: option.splits)
  from exec_paired [OF Cons.prems(1) c] have "\<forall>x this. st1 x = Some this \<longrightarrow> paired this" .
  from Cons.IH [OF this cs] show ?case .
qed

text \<open>
  Claim C10. After any sequence of public operations that runs to its end, starting
  with no object at all (constructors, copy construction and assignment, setters,
  \<^verbatim>\<open>AddResult\<close>, \<^verbatim>\<open>AddWin\<close>, \<^verbatim>\<open>AddLoss\<close>, \<^verbatim>\<open>AddDraw\<close> with a result of the enumeration,
  \<^verbatim>\<open>ClearResults\<close>, \<^verbatim>\<open>Update\<close>), the opponent vector and the score vector of every object
  have the same length, so \<^verbatim>\<open>Update\<close> on it never reads a score out of range.
\<close>

theorem paired_log_invariant:
  assumes "run cs Map.empty = Some st" and "st x = Some this"
  shows "length (opponents this) = length (results this)
         \<and> Update this \<noteq> Some (Inl OutOfRange)"
proof -
  have "\<forall>x this. (Map.empty :: store) x = Some this \<longrightarrow> paired this"
    by simp
  from run_paired [OF this assms(1)] assms(2) have "paired this"
    by blast
  then show ?thesis
    using Update_in_range by (simp add: paired_def)
qed


theorem paired_log_invariant_witness:
  "run example_calls Map.empty
     = Some [0 \<mapsto> AddDraw (Glicko2 (Fin 1) (Fin 1) (Fin (1/5)) [] []) example_opponent,
             1 \<mapsto> example_opponent]
   \<and> length (opponents (AddDraw (Glicko2 (Fin 1) (Fin 1) (Fin (1/5)) [] []) example_opponent))
       = length (results (AddDraw (Glicko2 (Fin 1) (Fin 1) (Fin (1/5)) [] []) example_opponent))
   \<and> Update (AddDraw (Glicko2 (Fin 1) (Fin 1) (Fin (1/5)) [] []) example_opponent)
       \<noteq> Some (Inl OutOfRange)"
proof -
  have r: "run example_calls Map.empty
     = Some [0 \<mapsto> AddDraw (Glicko2 (Fin 1) (Fin 1) (Fin (1/5)) [] []) example_opponent,
             1 \<mapsto> example_opponent]"
    by (simp add: example_calls_def on_objects_def example_subject_def [symmetric]
        example_opponent_def [symmetric] example_Update fun_upd_twist)
  have l: "[0 \<mapsto> AddDraw (Glicko2 (Fin 1) (Fin 1) (Fin (1/5)) [] []) example_opponent,
            1 \<mapsto> example_opponent] (0::nat)
           = Some (AddDraw (Glicko2 (Fin 1) (Fin 1) (Fin (1/5)) [] []) example_opponent)"
    by simp
  show ?thesis
    using paired_log_invariant [OF r l] r by simp
qed

subsection \<open>Snapshot isolation\<close>

lemma exec_frame:
  assumes "exec c st = Some st'" and "target c \<noteq> s"
  shows "st' s = st s"
  using assms
  by (cases c) (auto simp: on_object_def on_objects_def split: option.splits sum.splits)

lemma run_frame:
  assumes "run cs st = Some st'" and "\<forall>c \<in> set cs. target c \<noteq> s"
  shows "st' s = st s"
  using assms
proof (induction cs arbitrary: st)
  case Nil
  then show ?case by simp
next
  case (Cons c cs)
  from Cons.prems(1) obtain st1 where c: "exec c st = Some st1" and cs: "run cs st1 = Some st'"
    by (auto split: option.splits)
  have "st' s = st1 s"
    using Cons.IH [OF cs] Cons.prems(2) by simp
  also have "\<dots> = st s"
    using exec_frame [OF c] Cons.prems(2) by simp
  finally show ?case .
qed

lemma exec_Update_local:
  assumes "st1 s = st2 s"
  shows "map_option (\<lambda>t. t s) (exec (Call_Update s) st1)
         = map_option (\<lambda>t. t s) (exec (Call_Update s) st2)"
  using assms by (simp split: option.splits sum.splits)

text \<open>
  Claim C4. Let the subject \<open>s\<close> record a result against another object \<open>opp\<close>, and let
  any calls that construct or mutate \<open>opp\<close> follow (its setters, its own \<^verbatim>\<open>Update\<close>, its
  own recordings, an assignment to it) and return. The state of \<open>s\<close> after its
  \<^verbatim>\<open>Update\<close> is then the state it has when \<^verbatim>\<open>Update\<close> follows the recording at once
  (and if one of the two updates does not return, neither does the other).
\<close>

theorem snapshot_isolation:
  assumes "opp \<noteq> s" and "\<forall>c \<in> set muts. target c = opp"
    and "run (Call_AddResult s opp score # muts) st = Some st'"
  shows "map_option (\<lambda>t. t s) (exec (Call_Update s) st')
         = map_option (\<lambda>t. t s) (run [Call_AddResult s opp score, Call_Update s] st)"
proof -
  from assms(3) obtain st1
    where rec: "exec (Call_AddResult s opp score) st = Some st1" and muts: "run muts st1 = Some st'"
    by (auto split: option.splits)
  have "\<forall>c \<in> set muts. target c \<noteq> s"
    using assms(1,2) by simp
  from run_frame [OF muts this] have "st' s = st1 s" .
  then have "map_option (\<lambda>t. t s) (exec (Call_Update s) st')
        = map_option (\<lambda>t. t s) (exec (Call_Update s) st1)"
    by (rule exec_Update_local)
  also have "\<dots> = map_option (\<lambda>t. t s) (run [Call_AddResult s opp score, Call_Update s] st)"
    using rec by (simp split: option.splits)
  finally show ?thesis .
qed

lemma example_mutations_run:
  "run (Call_AddResult 0 1 WIN # example_mutations) example_store
   = Some [0 \<mapsto> example_subject,
           1 \<mapsto> SetVolatility (SetDeviation (AddLoss (SetRating example_opponent 1900.0)
                    example_subject) 30.0) 0.07]"
  by (simp add: example_mutations_def example_store_def on_objects_def on_object_def
      example_subject_def AddWin_def fun_upd_twist)

theorem snapshot_isolation_witness:
  "(1::nat) \<noteq> 0
   \<and> map_option (\<lambda>t. t 0)
         (exec (Call_Update 0)
            [0 \<mapsto> example_subject,
             1 \<mapsto> SetVolatility (SetDeviation (AddLoss (SetRating example_opponent 1900.0)
                      example_subject) 30.0) 0.07])
       = Some (Some (Glicko2 (Fin 1) (Fin 1) (Fin (1/5)) [] []))
   \<and> map_option (\<lambda>t. t 0) (run [Call_AddResult 0 1 WIN, Call_Update 0] example_store)
       = Some (Some (Glicko2 (Fin 1) (Fin 1) (Fin (1/5)) [] []))"
proof -
  have d: "(1::nat) \<noteq> 0" by simp
  have m: "\<forall>c \<in> set example_mutations. target c = 1"
    by (simp add: example_mutations_def)
  have "map_option (\<lambda>t. t 0) (run [Call_AddResult 0 1 WIN, Call_Update 0] example_store)
        = Some (Some (Glicko2 (Fin 1) (Fin 1) (Fin (1/5)) [] []))"
    by (simp add: example_store_def on_objects_def example_subject_def [symmetric]
        AddWin_def [symmetric] example_Update)
  with snapshot_isolation [OF d m example_mutations_run] show ?thesis
    by simp
qed

subsection \<open>NaN propagates\<close>

lemma NaN_absorbs [simp]:
  "x + NaN = NaN" "x - NaN = NaN" "NaN - x = NaN" "x * NaN = NaN" "x / NaN = NaN"
  "- NaN = NaN"
  by (cases x; simp add: minus_double_def)+

lemma NaN_power2 [simp]: "NaN\<^sup>2 = NaN"
  by (simp add: power2_eq_square)

lemma NaN_compare [simp]: "\<not> x < NaN" "\<not> NaN < x"
  by (cases x; simp)+

subsection \<open>Update has no failure path\<close>

text \<open>
  Claim C6 as amended. \<^verbatim>\<open>Update\<close> has neither an iteration bound nor a failure result. On
  a non-empty log it returns exactly when the volatility loop exits, and then it has
  replaced the rating, the deviation and the volatility by the values computed from the
  loop's result and cleared the log; when the loop does not exit, \<^verbatim>\<open>Update\<close> does not
  return.
\<close>

theorem Update_has_no_failure_path:
  assumes "opponents this \<noteq> []" and "length (opponents this) \<le> length (results this)"
  shows "(Update this = None \<longleftrightarrow>
            volatility_loop (deviation this) (spec_v this) (spec_delta this)
              (log_double (volatility this * volatility this)) 0
              (log_double (volatility this * volatility this)) = None)
         \<and> (\<forall>r. Update this = Some r \<longrightarrow>
               (\<exists>x_new.
                  volatility_loop (deviation this) (spec_v this) (spec_delta this)
                    (log_double (volatility this * volatility this)) 0
                    (log_double (volatility this * volatility this)) = Some x_new
                  \<and> r = Inr (Glicko2 (spec_mu' this (exp_double (x_new / 2)))
                                    (spec_phi' this (exp_double (x_new / 2)))
                                    (exp_double (x_new / 2)) [] [])))"
  by (auto simp: Update_nonempty [OF assms])

theorem Update_has_no_failure_path_witness:
  "opponents example_subject \<noteq> []
   \<and> length (opponents example_subject) \<le> length (results example_subject)
   \<and> Update example_subject \<noteq> None
   \<and> (\<exists>x_new. Update example_subject
         = Some (Inr (Glicko2 (spec_mu' example_subject (exp_double (x_new / 2)))
                              (spec_phi' example_subject (exp_double (x_new / 2)))
                              (exp_double (x_new / 2)) [] [])))"
proof -
  have loop: "volatility_loop (deviation example_subject) (spec_v example_subject)
         (spec_delta example_subject)
         (log_double (volatility example_subject * volatility example_subject)) 0
         (log_double (volatility example_subject * volatility example_subject))
       = Some (Fin (- ln 25))"
    by (simp add: example_fields example_v example_delta example_a example_loop)
  from Update_has_no_failure_path [OF example_fields(3,4)] loop
  have "Update example_subject \<noteq> None"
    and "\<exists>x_new. Update example_subject
         = Some (Inr (Glicko2 (spec_mu' example_subject (exp_double (x_new / 2)))
                              (spec_phi' example_subject (exp_double (x_new / 2)))
                              (exp_double (x_new / 2)) [] []))"
    by auto
  then show ?thesis
    using example_fields(3,4) by simp
qed

subsection \<open>The loop returns when finitely many iterations reach its exit\<close>

lemma within_imp_loop:
  "volatility_loop_within n dev v dl a x x_new = Some y
   \<Longrightarrow> volatility_loop dev v dl a x x_new = Some y"
proof (induction n arbitrary: x x_new)
  case 0
  then show ?case by simp
next
  case (Suc n)
  show ?case
  proof (cases "\<bar>x - x_new\<bar> > 0.0000001")
    case True
    with Suc.prems
    have "volatility_loop_within n dev v dl a x_new (newton_step dev v dl a x_new) = Some y"
      by simp
    from Suc.IH [OF this] True show ?thesis
      by (subst volatility_loop.simps) simp
  next
    case False
    with Suc.prems show ?thesis
      by (subst volatility_loop.simps) simp
  qed
qed

lemma loop_imp_within:
  assumes "volatility_loop dev v dl a x x_new = Some y"
  shows "\<exists>n. volatility_loop_within n dev v dl a x x_new = Some y"
proof -
  let ?P = "\<lambda>dev v dl a x x_new y. \<exists>n. volatility_loop_within n dev v dl a x x_new = Some y"
  have step: "?P dev v dl a x x_new y"
    if IH: "\<And>dev v dl a x x_new y. f dev v dl a x x_new = Some y \<Longrightarrow> ?P dev v dl a x x_new y"
      and body: "(if \<bar>x - x_new\<bar> > 0.0000001
                  then f dev v dl a x_new (newton_step dev v dl a x_new)
                  else Some x_new) = Some y"
    for f dev v dl a x x_new y
  proof (cases "\<bar>x - x_new\<bar> > 0.0000001")
    case True
    with body have "f dev v dl a x_new (newton_step dev v dl a x_new) = Some y"
      by simp
    from IH [OF this] obtain n
      where "volatility_loop_within n dev v dl a x_new (newton_step dev v dl a x_new) = Some y"
      by blast
    with True have "volatility_loop_within (Suc n) dev v dl a x x_new = Some y"
      by simp
    then show ?thesis by blast
  next
    case False
    with body have "volatility_loop_within (Suc 0) dev v dl a x x_new = Some y"
      by simp
    then show ?thesis by blast
  qed
  show ?thesis
  proof (rule volatility_loop.raw_induct
      [where xa = "(((((dev, v), dl), a), x), x_new)" and y = y and P = ?P, unfolded prod.case])
    show "volatility_loop dev v dl a x x_new = Some y"
      by (fact assms)
  qed (rule step)
qed

lemma loop_never_returns:
  assumes "\<And>n. volatility_loop_within n dev v dl a x x_new = None"
  shows "volatility_loop dev v dl a x x_new = None"
proof (cases "volatility_loop dev v dl a x x_new")
  case None
  then show ?thesis .
next
  case (Some y)
  from loop_imp_within [OF this] assms show ?thesis
    by simp
qed

subsection \<open>An update that never returns\<close>

text \<open>
  For the player \<open>cycling_subject\<close> the loop runs on \<open>deviation = 1/50\<close>, \<open>variance = 2/125\<close>,
  \<open>delta = 2\<close> and \<open>a = ln (9/2500)\<close>. Written as \<open>x = a + y\<close>, its iterates alternate between
  \<open>0 \<le> y \<le> 1e-6\<close>, where \<open>h2\<close> is small and positive and the step leads to
  \<open>-60 \<le> y \<le> -40\<close>, and that interval, from which the step leads back: two successive
  iterates are never within \<open>1e-7\<close> of each other.
\<close>

lemma newton_step_Fin:
  assumes "d_fin phi v x \<noteq> 0" and "h2_fin phi v delta x \<noteq> 0"
  shows "newton_step (Fin phi) (Fin v) (Fin delta) (Fin a) (Fin x)
         = Fin (x - h1_fin phi v delta a x / h2_fin phi v delta x)"
proof -
  have d: "phi * phi + v + exp x \<noteq> 0"
    using assms(1) by (simp add: d_fin_def)
  have h2: "- 1 / (0.3 * 0.3) - 0.5 * exp x * (phi * phi + v)
              / ((phi * phi + v + exp x) * (phi * phi + v + exp x))
            + 0.5 * (delta * delta) * exp x * (phi * phi + v - exp x)
              / ((phi * phi + v + exp x) * (phi * phi + v + exp x) * (phi * phi + v + exp x))
            \<noteq> 0"
    using assms(2) by (simp add: h2_fin_def d_fin_def)
  show ?thesis
    unfolding newton_step_def Let_def dvolatility_def h1_fin_def h2_fin_def d_fin_def
    using d h2
    by (simp add: double_simps)
qed

lemma cycle_A_form:
  fixes e w :: real
  assumes "w = 41 + 9 * e" and "w \<noteq> 0"
  shows "- 0.5 * (9/2500 * e) / (w / 2500)
         + 0.5 * (9/2500 * e) * (2 / (w / 2500)) * (2 / (w / 2500))
         = 9 * e * (9959 - 9 * e) / (2 * w\<^sup>2)"
proof -
  have "- 0.5 * (9/2500 * e) / (w / 2500)
         + 0.5 * (9/2500 * e) * (2 / (w / 2500)) * (2 / (w / 2500))
        = 9 * e * (10000 - w) / (2 * w\<^sup>2)"
    using assms(2) by (simp add: field_simps power2_eq_square)
  also have "10000 - w = 9959 - 9 * e"
    by (simp add: assms(1))
  finally show ?thesis .
qed

lemma cycle_B_form:
  fixes e w :: real
  assumes "w = 41 + 9 * e" and "w \<noteq> 0"
  shows "- 0.5 * (9/2500 * e) * (41/2500) / (w / 2500 * (w / 2500))
         + 0.5 * (2 * 2) * (9/2500 * e) * (41/2500 - 9/2500 * e)
             / (w / 2500 * (w / 2500) * (w / 2500))
         = 9 * e * (408319 - 90369 * e) / (2 * w ^ 3)"
proof -
  have "- 0.5 * (9/2500 * e) * (41/2500) / (w / 2500 * (w / 2500))
         + 0.5 * (2 * 2) * (9/2500 * e) * (41/2500 - 9/2500 * e)
             / (w / 2500 * (w / 2500) * (w / 2500))
        = 9 * e * (10000 * (41 - 9 * e) - 41 * w) / (2 * w ^ 3)"
    using assms(2) by (simp add: field_simps power3_eq_cube)
  also have "10000 * (41 - 9 * e) - 41 * w = 408319 - 90369 * e"
    by (simp add: assms(1))
  finally show ?thesis .
qed

lemma cycle_exp: "exp (ln (9/2500 :: real) + y) = 9/2500 * exp y"
  by (simp add: exp_add)

lemma cycle_d: "d_fin (1/50) (2/125) (ln (9/2500) + y) = (41 + 9 * exp y) / 2500"
  by (simp add: d_fin_def cycle_exp)

lemma cycle_h1:
  "h1_fin (1/50) (2/125) 2 (ln (9/2500)) (ln (9/2500) + y) = - y / (9/100) + cycle_A (exp y)"
proof -
  have "41 + 9 * exp y > 0"
    by (simp add: add_pos_pos)
  then have w: "41 + 9 * exp y \<noteq> 0" by simp
  have "h1_fin (1/50) (2/125) 2 (ln (9/2500)) (ln (9/2500) + y)
        = - y / (9/100) + (- 0.5 * (9/2500 * exp y) / ((41 + 9 * exp y) / 2500)
         + 0.5 * (9/2500 * exp y) * (2 / ((41 + 9 * exp y) / 2500))
             * (2 / ((41 + 9 * exp y) / 2500)))"
    unfolding h1_fin_def cycle_d cycle_exp by simp
  also have "\<dots> = - y / (9/100) + cycle_A (exp y)"
    unfolding cycle_A_def by (subst cycle_A_form [OF refl w]) (rule refl)
  finally show ?thesis .
qed

lemma cycle_h2:
  "h2_fin (1/50) (2/125) 2 (ln (9/2500) + y) = - 100 / 9 + cycle_B (exp y)"
proof -
  have "41 + 9 * exp y > 0"
    by (simp add: add_pos_pos)
  then have w: "41 + 9 * exp y \<noteq> 0" by simp
  have "h2_fin (1/50) (2/125) 2 (ln (9/2500) + y)
        = - 100 / 9 + (- 0.5 * (9/2500 * exp y) * (41/2500)
             / ((41 + 9 * exp y) / 2500 * ((41 + 9 * exp y) / 2500))
         + 0.5 * (2 * 2) * (9/2500 * exp y) * (41/2500 - 9/2500 * exp y)
             / ((41 + 9 * exp y) / 2500 * ((41 + 9 * exp y) / 2500) * ((41 + 9 * exp y) / 2500)))"
    unfolding h2_fin_def cycle_d cycle_exp by simp
  also have "\<dots> = - 100 / 9 + cycle_B (exp y)"
    unfolding cycle_B_def by (subst cycle_B_form [OF refl w]) (rule refl)
  finally show ?thesis .
qed

lemma exp_small:
  fixes y :: real
  assumes "0 \<le> y" and "y \<le> 1 / 10 ^ 6"
  shows "1 \<le> exp y" and "exp y \<le> 500001 / 500000"
proof -
  show "1 \<le> exp y" using assms(1) by simp
  have "y \<le> 1" using assms(2) by simp
  from exp_bound [OF assms(1) this] have "exp y \<le> 1 + y + y\<^sup>2" .
  also have "y\<^sup>2 \<le> y * 1"
    unfolding power2_eq_square using assms(1) \<open>y \<le> 1\<close> by (intro mult_left_mono) simp_all
  finally have "exp y \<le> 1 + 2 * y" by simp
  with assms(2) show "exp y \<le> 500001 / 500000" by simp
qed

lemma exp_tiny:
  fixes y :: real
  assumes "y \<le> - 40"
  shows "exp y \<le> 1 / 2 ^ 40"
proof -
  have "(2::real) \<le> exp 1"
    using exp_ge_add_one_self [of "1::real"] by simp
  then have "(2::real) ^ 40 \<le> exp 1 ^ 40"
    by (intro power_mono) simp_all
  also have "\<dots> = exp (of_nat 40 * (1::real))"
    by (rule exp_of_nat_mult [symmetric])
  finally have "(2::real) ^ 40 \<le> exp 40" by simp
  then have "1 / exp (40::real) \<le> 1 / 2 ^ 40"
    by (intro divide_left_mono) simp_all
  moreover have "exp y \<le> exp (- 40)"
    using assms by simp
  then have "exp y \<le> 1 / exp 40"
    by (simp add: exp_minus inverse_eq_divide)
  ultimately show ?thesis
    by (rule order_trans [rotated])
qed

lemma cycle_A_near_one:
  assumes "1 \<le> e" and "e \<le> 500001 / 500000"
  shows "179 / 10 \<le> cycle_A e" and "cycle_A e \<le> 1792 / 100"
proof -
  have n_lo: "9959 - 9 * (500001 / 500000) \<le> e * (9959 - 9 * e)"
  proof -
    have "1 * (9959 - 9 * (500001 / 500000)) \<le> e * (9959 - 9 * e)"
      using assms by (intro mult_mono) simp_all
    then show ?thesis by simp
  qed
  have n_hi: "e * (9959 - 9 * e) \<le> 500001 / 500000 * 9950"
    using assms by (intro mult_mono) simp_all
  have w: "0 < 41 + 9 * e"
    using assms(1) by simp
  have d_lo: "50\<^sup>2 \<le> (41 + 9 * e)\<^sup>2"
    using assms by (intro power_mono) simp_all
  have d_hi: "(41 + 9 * e)\<^sup>2 \<le> (41 + 9 * (500001 / 500000))\<^sup>2"
    using assms by (intro power_mono) simp_all
  have "(179 / 10 :: real) \<le> 9 * (9959 - 9 * (500001 / 500000)) / (2 * (41 + 9 * (500001 / 500000))\<^sup>2)"
    by (simp add: power2_eq_square)
  also have "\<dots> \<le> 9 * (e * (9959 - 9 * e)) / (2 * (41 + 9 * e)\<^sup>2)"
    using n_lo d_hi d_lo w by (intro frac_le) simp_all
  finally show "179 / 10 \<le> cycle_A e"
    by (simp add: cycle_A_def mult.assoc)
  have "9 * (e * (9959 - 9 * e)) / (2 * (41 + 9 * e)\<^sup>2)
        \<le> 9 * (500001 / 500000 * 9950) / (2 * 50\<^sup>2)"
    using n_hi d_lo assms by (intro frac_le) simp_all
  also have "\<dots> \<le> 1792 / 100"
    by simp
  finally show "cycle_A e \<le> 1792 / 100"
    by (simp add: cycle_A_def mult.assoc)
qed

lemma cycle_B_near_one:
  assumes "1 \<le> e" and "e \<le> 500001 / 500000"
  shows "1144 / 100 \<le> cycle_B e" and "cycle_B e \<le> 1145 / 100"
proof -
  have n_lo: "408319 - 90369 * (500001 / 500000) \<le> e * (408319 - 90369 * e)"
  proof -
    have "1 * (408319 - 90369 * (500001 / 500000)) \<le> e * (408319 - 90369 * e)"
      using assms by (intro mult_mono) simp_all
    then show ?thesis by simp
  qed
  have n_hi: "e * (408319 - 90369 * e) \<le> 500001 / 500000 * 317950"
    using assms by (intro mult_mono) simp_all
  have w: "0 < 41 + 9 * e"
    using assms(1) by simp
  have d_lo: "50 ^ 3 \<le> (41 + 9 * e) ^ 3"
    using assms by (intro power_mono) simp_all
  have d_hi: "(41 + 9 * e) ^ 3 \<le> (41 + 9 * (500001 / 500000)) ^ 3"
    using assms by (intro power_mono) simp_all
  have "(1144 / 100 :: real) \<le> 9 * (408319 - 90369 * (500001 / 500000))
                        / (2 * (41 + 9 * (500001 / 500000)) ^ 3)"
    by (simp add: power3_eq_cube)
  also have "\<dots> \<le> 9 * (e * (408319 - 90369 * e)) / (2 * (41 + 9 * e) ^ 3)"
    using n_lo d_hi d_lo w by (intro frac_le) simp_all
  finally show "1144 / 100 \<le> cycle_B e"
    by (simp add: cycle_B_def mult.assoc)
  have "9 * (e * (408319 - 90369 * e)) / (2 * (41 + 9 * e) ^ 3)
        \<le> 9 * (500001 / 500000 * 317950) / (2 * 50 ^ 3)"
    using n_hi d_lo assms by (intro frac_le) simp_all
  also have "\<dots> \<le> 1145 / 100"
    by simp
  finally show "cycle_B e \<le> 1145 / 100"
    by (simp add: cycle_B_def mult.assoc)
qed

lemma cycle_AB_tiny:
  assumes "0 < e" and "e \<le> 1 / 2 ^ 40"
  shows "0 < cycle_A e" and "cycle_A e \<le> 27 * e" and "0 < cycle_B e" and "cycle_B e \<le> 27 * e"
proof -
  have e1: "e \<le> 1"
    using assms(2) by simp
  have pA: "0 < 9959 - 9 * e" and pB: "0 < 408319 - 90369 * e"
    using e1 by simp_all
  have w: "0 < 41 + 9 * e"
    using assms(1) by simp
  show "0 < cycle_A e"
    unfolding cycle_A_def using assms(1) pA w by simp
  show "0 < cycle_B e"
    unfolding cycle_B_def using assms(1) pB w by simp
  have d2: "41\<^sup>2 \<le> (41 + 9 * e)\<^sup>2"
    using assms(1) by (intro power_mono) simp_all
  have d3: "41 ^ 3 \<le> (41 + 9 * e) ^ 3"
    using assms(1) by (intro power_mono) simp_all
  have "9 * e * (9959 - 9 * e) / (2 * (41 + 9 * e)\<^sup>2) \<le> 9 * e * 9959 / (2 * 41\<^sup>2)"
    using assms(1) pA d2 by (intro frac_le mult_left_mono) simp_all
  also have "\<dots> \<le> 27 * e"
    using assms(1) by simp
  finally show "cycle_A e \<le> 27 * e"
    by (simp add: cycle_A_def)
  have "9 * e * (408319 - 90369 * e) / (2 * (41 + 9 * e) ^ 3) \<le> 9 * e * 408319 / (2 * 41 ^ 3)"
    using assms(1) pB d3 by (intro frac_le mult_left_mono) simp_all
  also have "\<dots> \<le> 27 * e"
    using assms(1) by simp
  finally show "cycle_B e \<le> 27 * e"
    by (simp add: cycle_B_def)
qed

lemma cycle_step_right:
  assumes "0 \<le> y" and "y \<le> 1 / 10 ^ 6"
  shows "\<exists>y'. newton_step (Fin (1/50)) (Fin (2/125)) (Fin 2) (Fin (ln (9/2500)))
                (Fin (ln (9/2500) + y)) = Fin (ln (9/2500) + y')
              \<and> - 60 \<le> y' \<and> y' \<le> - 40"
proof -
  define e where "e = exp y"
  define h1 where "h1 = - y / (9/100) + cycle_A e"
  define h2 where "h2 = - 100 / 9 + cycle_B e"
  from exp_small [OF assms] have e: "1 \<le> e" "e \<le> 500001 / 500000"
    by (simp_all add: e_def)
  note A = cycle_A_near_one [OF e] and B = cycle_B_near_one [OF e]
  have h2: "32 / 100 \<le> h2" "h2 \<le> 34 / 100"
    using B by (simp_all add: h2_def)
  have h1: "1789 / 100 \<le> h1" "h1 \<le> 1792 / 100"
    using A assms by (simp_all add: h1_def field_simps)
  have "h1 / h2 \<le> (1792 / 100) / (32 / 100)"
    using h1 h2 by (intro frac_le) simp_all
  also have "\<dots> = 56"
    by simp
  finally have up: "h1 / h2 \<le> 56" .
  have "(52 :: real) \<le> (1789 / 100) / (34 / 100)"
    by simp
  also have "\<dots> \<le> h1 / h2"
    using h1 h2 by (intro frac_le) simp_all
  finally have lo: "52 \<le> h1 / h2" .
  have d: "d_fin (1/50) (2/125) (ln (9/2500) + y) \<noteq> 0"
    using e by (simp add: cycle_d e_def [symmetric])
  have "h2 \<noteq> 0"
    using h2 by simp
  then have nz: "h2_fin (1/50) (2/125) 2 (ln (9/2500) + y) \<noteq> 0"
    unfolding cycle_h2 h2_def e_def .
  have "newton_step (Fin (1/50)) (Fin (2/125)) (Fin 2) (Fin (ln (9/2500)))
          (Fin (ln (9/2500) + y)) = Fin (ln (9/2500) + y - h1 / h2)"
    by (simp only: newton_step_Fin [OF d nz] cycle_h1 cycle_h2 e_def h1_def h2_def)
  then have "newton_step (Fin (1/50)) (Fin (2/125)) (Fin 2) (Fin (ln (9/2500)))
          (Fin (ln (9/2500) + y)) = Fin (ln (9/2500) + (y - h1 / h2))"
    by (simp add: algebra_simps)
  moreover have "- 60 \<le> y - h1 / h2" "y - h1 / h2 \<le> - 40"
    using up lo assms by simp_all
  ultimately show ?thesis by blast
qed

lemma cycle_step_left:
  assumes "- 60 \<le> y" and "y \<le> - 40"
  shows "\<exists>y'. newton_step (Fin (1/50)) (Fin (2/125)) (Fin 2) (Fin (ln (9/2500)))
                (Fin (ln (9/2500) + y)) = Fin (ln (9/2500) + y')
              \<and> 0 \<le> y' \<and> y' \<le> 1 / 10 ^ 6"
proof -
  define e where "e = exp y"
  define A where "A = cycle_A e"
  define B where "B = cycle_B e"
  have e: "0 < e" "e \<le> 1 / 2 ^ 40"
    using exp_tiny [OF assms(2)] by (simp_all add: e_def)
  from cycle_AB_tiny [OF e]
  have A: "0 < A" "A \<le> 27 * e" and B: "0 < B" "B \<le> 27 * e"
    by (simp_all add: A_def B_def)
  have Bs: "B \<le> 27 / 2 ^ 40"
    using B(2) e(2) by simp
  have den: "11 \<le> 100 / 9 - B"
    using Bs by simp
  have "- y * B \<le> 60 * (27 * e)"
    using assms B by (intro mult_mono) simp_all
  then have num: "A - y * B \<le> 1647 * e"
    using A(2) by simp
  have "0 \<le> - y * B"
    using assms B(1) by (intro mult_nonneg_nonneg) simp_all
  then have num0: "0 \<le> A - y * B"
    using A(1) by simp
  have "(A - y * B) / (100 / 9 - B) \<le> (1647 * e) / 11"
    using num den e(1) by (intro frac_le) simp_all
  also have "\<dots> \<le> (1647 * (1 / 2 ^ 40)) / 11"
    using e(2) by (intro divide_right_mono mult_left_mono) simp_all
  also have "\<dots> \<le> 1 / 10 ^ 6"
    by simp
  finally have up: "(A - y * B) / (100 / 9 - B) \<le> 1 / 10 ^ 6" .
  have lo: "0 \<le> (A - y * B) / (100 / 9 - B)"
    using num0 den by (intro divide_nonneg_nonneg) simp_all
  have ne: "- 100 / 9 + B \<noteq> 0"
    using den by simp
  have form: "y - (- y / (9/100) + A) / (- 100 / 9 + B) = (A - y * B) / (100 / 9 - B)"
  proof -
    have "100 / 9 - B \<noteq> 0" using den by simp
    with ne show ?thesis by (simp add: field_simps)
  qed
  have d: "d_fin (1/50) (2/125) (ln (9/2500) + y) \<noteq> 0"
    using e(1) by (simp add: cycle_d e_def [symmetric])
  have nz: "h2_fin (1/50) (2/125) 2 (ln (9/2500) + y) \<noteq> 0"
    using ne unfolding cycle_h2 B_def e_def .
  have "newton_step (Fin (1/50)) (Fin (2/125)) (Fin 2) (Fin (ln (9/2500)))
          (Fin (ln (9/2500) + y))
        = Fin (ln (9/2500) + y - (- y / (9/100) + A) / (- 100 / 9 + B))"
    by (simp only: newton_step_Fin [OF d nz] cycle_h1 cycle_h2 e_def A_def B_def)
  also have "ln (9/2500) + y - (- y / (9/100) + A) / (- 100 / 9 + B)
             = ln (9/2500) + (y - (- y / (9/100) + A) / (- 100 / 9 + B))"
    by simp
  finally have "newton_step (Fin (1/50)) (Fin (2/125)) (Fin 2) (Fin (ln (9/2500)))
          (Fin (ln (9/2500) + y)) = Fin (ln (9/2500) + (A - y * B) / (100 / 9 - B))"
    by (simp only: form)
  with up lo show ?thesis by blast
qed

lemma cycle_within:
  assumes "(0 \<le> y \<and> y \<le> 1 / 10 ^ 6 \<and> - 60 \<le> y' \<and> y' \<le> - 40)
           \<or> (- 60 \<le> y \<and> y \<le> - 40 \<and> 0 \<le> y' \<and> y' \<le> 1 / 10 ^ 6)"
  shows "volatility_loop_within n (Fin (1/50)) (Fin (2/125)) (Fin 2) (Fin (ln (9/2500)))
           (Fin (ln (9/2500) + y)) (Fin (ln (9/2500) + y')) = None"
  using assms
proof (induction n arbitrary: y y')
  case 0
  show ?case by simp
next
  case (Suc n)
  have far: "1 / 10 ^ 7 < \<bar>y - y'\<bar>"
    using Suc.prems by auto
  then have test: "\<bar>Fin (ln (9/2500) + y) - Fin (ln (9/2500) + y')\<bar> > (0.0000001 :: double)"
    by (simp add: double_simps)
  from Suc.prems obtain y'' where
    step: "newton_step (Fin (1/50)) (Fin (2/125)) (Fin 2) (Fin (ln (9/2500)))
             (Fin (ln (9/2500) + y')) = Fin (ln (9/2500) + y'')"
    and next_inv: "(0 \<le> y' \<and> y' \<le> 1 / 10 ^ 6 \<and> - 60 \<le> y'' \<and> y'' \<le> - 40)
           \<or> (- 60 \<le> y' \<and> y' \<le> - 40 \<and> 0 \<le> y'' \<and> y'' \<le> 1 / 10 ^ 6)"
    using cycle_step_right [of y'] cycle_step_left [of y'] by blast
  from Suc.IH [OF next_inv] test step show ?case
    by (simp del: abs_double.simps)
qed

lemma cycle_within_start:
  "volatility_loop_within n (Fin (1/50)) (Fin (2/125)) (Fin 2) (Fin (ln (9/2500))) 0
     (Fin (ln (9/2500))) = None"
proof (cases n)
  case 0
  then show ?thesis by simp
next
  case (Suc m)
  have "ln (9/2500 :: real) \<le> ln (1/3)"
    by (subst ln_le_cancel_iff) simp_all
  also have "\<dots> \<le> - 1"
    using ln_ge_iff [of 3 1] exp_le by (simp add: ln_div)
  finally have a: "ln (9/2500 :: real) \<le> - 1" .
  then have test: "\<bar>0 - Fin (ln (9/2500))\<bar> > (0.0000001 :: double)"
    by (simp add: double_simps)
  from cycle_step_right [of 0] obtain y' where
    step: "newton_step (Fin (1/50)) (Fin (2/125)) (Fin 2) (Fin (ln (9/2500)))
             (Fin (ln (9/2500))) = Fin (ln (9/2500) + y')"
    and y': "- 60 \<le> y'" "y' \<le> - 40"
    by auto
  have "volatility_loop_within m (Fin (1/50)) (Fin (2/125)) (Fin 2) (Fin (ln (9/2500)))
          (Fin (ln (9/2500) + 0)) (Fin (ln (9/2500) + y')) = None"
    using y' by (intro cycle_within) simp
  with test step show ?thesis
    by (simp add: Suc del: abs_double.simps)
qed

lemma cycle_never_returns:
  "volatility_loop (Fin (1/50)) (Fin (2/125)) (Fin 2) (Fin (ln (9/2500))) 0 (Fin (ln (9/2500)))
   = None"
  by (rule loop_never_returns) (rule cycle_within_start)

lemma winning_streak_eq:
  "winning_streak n this opponent
   = Glicko2 (rating this) (deviation this) (volatility this)
       (opponents this @ replicate n opponent) (results this @ replicate n (Fin 1))"
proof (induction n)
  case 0
  show ?case by (simp add: winning_streak_def)
next
  case (Suc n)
  have "winning_streak (Suc n) this opponent = AddWin (winning_streak n this opponent) opponent"
    by (simp add: winning_streak_def)
  also have "\<dots> = Glicko2 (rating this) (deviation this) (volatility this)
       (opponents this @ replicate (Suc n) opponent) (results this @ replicate (Suc n) (Fin 1))"
    unfolding Suc.IH
    by (simp add: AddWin_def AddResult_def replicate_append_same double_simps)
  finally show ?case .
qed

lemma sum_list_replicate_Fin: "sum_list (replicate n (Fin t)) = Fin (real n * t)"
  by (induction n) (simp_all add: zero_double_def algebra_simps)

lemma cycling_subject_eq:
  "cycling_subject = Glicko2 (Fin 0) (Fin (1/50)) (Fin (3/50))
                       (replicate 250 example_opponent) (replicate 250 (Fin 1))"
  by (simp add: cycling_subject_def winning_streak_eq Glicko2_of_def SetVolatility_def
      SetDeviation_def SetRating_def Glicko2_impl_def double_simps)

lemma cycling_fields:
  "deviation cycling_subject = Fin (1/50)"
  "opponents cycling_subject \<noteq> []"
  "length (opponents cycling_subject) \<le> length (results cycling_subject)"
  "log_double (volatility cycling_subject * volatility cycling_subject) = Fin (ln (9/2500))"
  by (simp_all add: cycling_subject_eq)

lemma cycling_pending:
  "pending cycling_subject = replicate 250 (example_opponent, Fin 1)"
  by (simp add: pending_def cycling_subject_eq zip_replicate)

lemma cycling_v: "spec_v cycling_subject = Fin (2/125)"
proof -
  have "rating cycling_subject = Fin 0"
    by (simp add: cycling_subject_eq)
  then show ?thesis
    by (simp add: spec_v_def cycling_pending spec_g_def spec_E_def example_opponent_eq g_zero
        E_equal_zero sum_list_replicate_Fin double_simps)
qed

lemma cycling_delta: "spec_delta cycling_subject = Fin 2"
proof -
  have "rating cycling_subject = Fin 0"
    by (simp add: cycling_subject_eq)
  then have "spec_residual cycling_subject = Fin 125"
    by (simp add: spec_residual_def cycling_pending spec_g_def spec_E_def example_opponent_eq
        g_zero E_equal_zero sum_list_replicate_Fin double_simps)
  then show ?thesis
    by (simp add: spec_delta_def cycling_v)
qed

text \<open>
  Claim C5 fails on the code: the loop has no bound on its iterations, and on the input
  \<open>cycling_subject\<close>, all of whose numbers are finite, \<^verbatim>\<open>Update\<close> never returns.
\<close>

theorem Update_runs_forever: "Update cycling_subject = None"
  by (simp add: Update_nonempty [OF cycling_fields(2,3)] cycling_fields cycling_v cycling_delta
      cycle_never_returns)

text \<open>
  Claim C1 fails on the code as it is stated, for every non-empty log: the log of
  \<open>cycling_subject\<close> is not empty and holds a score for every opponent, and \<^verbatim>\<open>Update\<close>
  does not return, so that no rating, deviation or volatility is committed.
\<close>

theorem Update_commits_nothing:
  "opponents cycling_subject \<noteq> []
   \<and> length (opponents cycling_subject) = length (results cycling_subject)
   \<and> Update cycling_subject = None"
  by (simp add: Update_nonempty [OF cycling_fields(2,3)] cycling_fields cycling_v cycling_delta
      cycle_never_returns)
     (simp add: cycling_subject_eq)

text \<open>
  Claim C6 fails on the code. On \<open>cycling_subject\<close> the volatility loop has not left after
  a thousand evaluations of its test (nor after any other number), and \<^verbatim>\<open>Update\<close> surfaces
  no failure to its caller: it does not return at all.
\<close>

theorem Update_surfaces_no_failure:
  "volatility_loop_within 1000 (deviation cycling_subject) (spec_v cycling_subject)
     (spec_delta cycling_subject)
     (log_double (volatility cycling_subject * volatility cycling_subject)) 0
     (log_double (volatility cycling_subject * volatility cycling_subject)) = None
   \<and> Update cycling_subject = None"
  by (simp add: Update_nonempty [OF cycling_fields(2,3)] cycling_fields cycling_v cycling_delta
      cycle_never_returns cycle_within_start)

text \<open>
  Claim C5 as amended. The loop has no iteration bound: on a non-empty log \<^verbatim>\<open>Update\<close>
  returns if and only if, for some \<open>n\<close>, the loop's test fails within its first \<open>n\<close>
  evaluations.
\<close>

theorem Update_returns_iff_loop_exits:
  assumes "opponents this \<noteq> []" and "length (opponents this) \<le> length (results this)"
  shows "(\<exists>r. Update this = Some r) \<longleftrightarrow>
         (\<exists>n x_new. volatility_loop_within n (deviation this) (spec_v this) (spec_delta this)
            (log_double (volatility this * volatility this)) 0
            (log_double (volatility this * volatility this)) = Some x_new)"
proof
  assume "\<exists>r. Update this = Some r"
  then obtain x_new where
    "volatility_loop (deviation this) (spec_v this) (spec_delta this)
       (log_double (volatility this * volatility this)) 0
       (log_double (volatility this * volatility this)) = Some x_new"
    by (auto simp: Update_nonempty [OF assms])
  from loop_imp_within [OF this]
  show "\<exists>n x_new. volatility_loop_within n (deviation this) (spec_v this) (spec_delta this)
            (log_double (volatility this * volatility this)) 0
            (log_double (volatility this * volatility this)) = Some x_new"
    by blast
next
  assume "\<exists>n x_new. volatility_loop_within n (deviation this) (spec_v this) (spec_delta this)
            (log_double (volatility this * volatility this)) 0
            (log_double (volatility this * volatility this)) = Some x_new"
  then obtain n x_new where
    "volatility_loop_within n (deviation this) (spec_v this) (spec_delta this)
            (log_double (volatility this * volatility this)) 0
            (log_double (volatility this * volatility this)) = Some x_new"
    by blast
  from within_imp_loop [OF this] show "\<exists>r. Update this = Some r"
    by (simp add: Update_nonempty [OF assms])
qed

theorem Update_returns_iff_loop_exits_witness:
  "opponents example_subject \<noteq> []
   \<and> length (opponents example_subject) \<le> length (results example_subject)
   \<and> (\<exists>r. Update example_subject = Some r)
   \<and> (\<exists>n x_new. volatility_loop_within n (deviation example_subject) (spec_v example_subject)
            (spec_delta example_subject)
            (log_double (volatility example_subject * volatility example_subject)) 0
            (log_double (volatility example_subject * volatility example_subject)) = Some x_new)"
proof -
  have "\<exists>r. Update example_subject = Some r"
    by (simp add: example_Update)
  with Update_returns_iff_loop_exits [OF example_fields(3,4)] example_fields(3,4)
  show ?thesis by blast
qed

subsection \<open>The first test of the loop\<close>

lemma unit_volatility_subject_eq:
  "unit_volatility_subject = Glicko2 (Fin 0) (Fin 1) (Fin 1) [example_opponent] [Fin 1]"
  by (simp add: unit_volatility_subject_def AddWin_def AddResult_def Glicko2_of_def
      SetVolatility_def SetDeviation_def SetRating_def Glicko2_impl_def double_simps)

lemma unit_volatility_aggregates:
  "spec_v unit_volatility_subject = Fin 4" "spec_delta unit_volatility_subject = Fin 2"
  "spec_residual unit_volatility_subject = Fin (1/2)"
  by (simp_all add: spec_delta_def spec_v_def spec_residual_def pending_def
      unit_volatility_subject_eq example_opponent_eq spec_g_def spec_E_def g_zero E_equal_zero
      double_simps)

lemma spec_step_newton_step:
  "x - spec_h1 phi v delta a dvolatility x / spec_h2 phi v delta dvolatility x
   = newton_step phi v delta a x"
  by (simp add: spec_h1_def spec_h2_def newton_step_def Let_def power2_eq_square
      power3_eq_cube literals mult.assoc)

lemma newton_step_Fin_cases:
  assumes "d_fin phi v x \<noteq> 0"
  shows "newton_step (Fin phi) (Fin v) (Fin delta) (Fin a) (Fin x)
         = (if h2_fin phi v delta x = 0
            then (if h1_fin phi v delta a x = 0 then NaN
                  else if 0 < h1_fin phi v delta a x then NInf else PInf)
            else Fin (x - h1_fin phi v delta a x / h2_fin phi v delta x))"
proof (cases "h2_fin phi v delta x = 0")
  case False
  with newton_step_Fin [OF assms] show ?thesis by simp
next
  case True
  have d: "phi * phi + v + exp x \<noteq> 0"
    using assms by (simp add: d_fin_def)
  have h2: "- 1 / (0.3 * 0.3) - 0.5 * exp x * (phi * phi + v)
              / ((phi * phi + v + exp x) * (phi * phi + v + exp x))
            + 0.5 * (delta * delta) * exp x * (phi * phi + v - exp x)
              / ((phi * phi + v + exp x) * (phi * phi + v + exp x) * (phi * phi + v + exp x))
            = 0"
    using True by (simp add: h2_fin_def d_fin_def)
  show ?thesis
    unfolding newton_step_def Let_def dvolatility_def
    using d h2 True
    by (simp add: double_simps h1_fin_def d_fin_def)
qed

lemma unit_h1:
  fixes t :: real
  assumes "\<bar>t\<bar> \<le> 1 / 10 ^ 7"
  shows "h1_fin 1 4 2 0 t \<le> - (3 / 1000)"
    and "\<bar>h2_fin 1 4 2 t\<bar> \<le> 12"
proof -
  define e where "e = exp t"
  have "exp (- 1) \<le> exp t" "exp t \<le> exp 1"
    using assms by simp_all
  moreover have "1 / 3 \<le> exp (- 1 :: real)"
    using exp_le by (simp add: exp_minus inverse_eq_divide field_simps)
  ultimately have e: "1 / 3 \<le> e" "e \<le> 3"
    using exp_le unfolding e_def by linarith+
  define d where "d = 5 + e"
  have d: "5 \<le> d" "d \<le> 8" "0 < d"
    using e by (simp_all add: d_def)
  have dfin: "d_fin 1 4 t = d"
    by (simp add: d_fin_def d_def e_def)
  have "4 / 9 \<le> e * (1 + e)"
  proof -
    have "1 / 3 * (1 + 1 / 3) \<le> e * (1 + e)"
      using e by (intro mult_mono) simp_all
    then show ?thesis by simp
  qed
  moreover have "d\<^sup>2 \<le> 8\<^sup>2"
    using d by (intro power_mono) simp_all
  ultimately have "(4 / 9) / (2 * 8\<^sup>2) \<le> e * (1 + e) / (2 * d\<^sup>2)"
    using d by (intro frac_le) simp_all
  then have bump: "1 / 288 \<le> e * (1 + e) / (2 * d\<^sup>2)"
    by simp
  have "- 0.5 * e / d + 0.5 * e * (2 / d) * (2 / d) = e * (4 - d) / (2 * d\<^sup>2)"
    using d(3) by (simp add: field_simps power2_eq_square)
  also have "4 - d = - (1 + e)"
    by (simp add: d_def)
  also have "e * - (1 + e) / (2 * d\<^sup>2) = - (e * (1 + e) / (2 * d\<^sup>2))"
    by (simp only: mult_minus_right minus_divide_left)
  finally have form: "- 0.5 * e / d + 0.5 * e * (2 / d) * (2 / d) = - (e * (1 + e) / (2 * d\<^sup>2))" .
  have "h1_fin 1 4 2 0 t = - t / (9 / 100) + (- 0.5 * e / d + 0.5 * e * (2 / d) * (2 / d))"
    unfolding h1_fin_def dfin e_def [symmetric] by simp
  also have "\<dots> = - t / (9 / 100) - e * (1 + e) / (2 * d\<^sup>2)"
    unfolding form by simp
  also have "\<dots> \<le> 1 / 10 ^ 5 - 1 / 288"
  proof -
    have "- t / (9 / 100) \<le> 1 / 10 ^ 5"
      using assms by (simp add: field_simps abs_le_iff)
    with bump show ?thesis by linarith
  qed
  also have "\<dots> \<le> - (3 / 1000)"
    by simp
  finally show "h1_fin 1 4 2 0 t \<le> - (3 / 1000)" .
  define p where "p = 0.5 * e * 5 / (d * d)"
  define q where "q = 0.5 * (2 * 2) * e * (5 - e) / (d * d * d)"
  have p: "0 \<le> p" "p \<le> 3 / 10"
  proof -
    have "0.5 * e * 5 / (d * d) \<le> (0.5 * 3 * 5) / (5 * 5)"
      using e d by (intro frac_le mult_mono) simp_all
    then show "p \<le> 3 / 10"
      by (simp add: p_def)
    show "0 \<le> p"
      using e d by (simp add: p_def)
  qed
  have q: "\<bar>q\<bar> \<le> 3 / 10"
  proof -
    have "\<bar>0.5 * (2 * 2) * e * (5 - e)\<bar> = 2 * e * \<bar>5 - e\<bar>"
      using e by (simp add: abs_mult)
    also have "\<dots> \<le> 2 * 3 * 5"
      using e by (intro mult_mono) simp_all
    finally have n: "\<bar>0.5 * (2 * 2) * e * (5 - e)\<bar> \<le> 30" by simp
    have "5 * 5 * 5 \<le> d * d * d"
      using d by (intro mult_mono) simp_all
    then have dd: "125 \<le> d * d * d" by simp
    have "\<bar>q\<bar> = \<bar>0.5 * (2 * 2) * e * (5 - e)\<bar> / (d * d * d)"
      using d(3) by (simp add: q_def abs_mult)
    also have "\<dots> \<le> 30 / 125"
      using n dd by (intro frac_le) simp_all
    finally show ?thesis by simp
  qed
  have "h2_fin 1 4 2 t = - (100 / 9) - p + q"
    unfolding h2_fin_def dfin e_def [symmetric] p_def q_def by simp
  with p q show "\<bar>h2_fin 1 4 2 t\<bar> \<le> 12"
    by linarith
qed

lemma unit_exit_not_one:
  assumes "\<bar>newton_step (Fin 1) (Fin 4) (Fin 2) (Fin 0) x - x\<bar> \<le> 0.0000001"
  shows "exp_double (newton_step (Fin 1) (Fin 4) (Fin 2) (Fin 0) x / 2) \<noteq> Fin 1"
proof
  assume one: "exp_double (newton_step (Fin 1) (Fin 4) (Fin 2) (Fin 0) x / 2) = Fin 1"
  then obtain t' where t': "newton_step (Fin 1) (Fin 4) (Fin 2) (Fin 0) x = Fin t'"
    by (cases "newton_step (Fin 1) (Fin 4) (Fin 2) (Fin 0) x") (simp_all add: double_simps)
  with one have "exp (t' / 2) = 1"
    by (simp add: double_simps)
  then have zero: "t' = 0"
    by simp
  from assms obtain t where x: "x = Fin t" and t: "\<bar>t\<bar> \<le> 1 / 10 ^ 7"
    unfolding t' zero
    by (cases x) (auto simp: less_eq_double_def double_simps)
  have "0 < 5 + exp t"
    by (simp add: add_pos_pos)
  then have d: "d_fin 1 4 t \<noteq> 0"
    by (simp add: d_fin_def)
  from t' have nz: "h2_fin 1 4 2 t \<noteq> 0"
    and "t - h1_fin 1 4 2 0 t / h2_fin 1 4 2 t = 0"
    unfolding x zero newton_step_Fin_cases [OF d] by (auto split: if_splits)
  then have "h1_fin 1 4 2 0 t / h2_fin 1 4 2 t = t"
    by simp
  then have "h1_fin 1 4 2 0 t = t * h2_fin 1 4 2 t"
    using nz by (simp add: divide_eq_eq)
  then have "\<bar>h1_fin 1 4 2 0 t\<bar> = \<bar>t\<bar> * \<bar>h2_fin 1 4 2 t\<bar>"
    by (simp add: abs_mult)
  also have "\<dots> \<le> 1 / 10 ^ 7 * 12"
    using t unit_h1(2) [OF t] by (intro mult_mono) simp_all
  finally have "\<bar>h1_fin 1 4 2 0 t\<bar> \<le> 12 / 10 ^ 7"
    by simp
  with unit_h1(1) [OF t] show False
    by simp
qed

lemma spec_iterate_unit:
  assumes "spec_iterate (Fin 1) (Fin 4) (Fin 2) (Fin 0) dvolatility x = Some r"
  shows "r \<noteq> Fin 1"
proof -
  let ?P = "\<lambda>phi v delta a tau (x :: double) r.
              phi = Fin 1 \<and> v = Fin 4 \<and> delta = Fin 2 \<and> a = Fin 0 \<and> tau = dvolatility
              \<longrightarrow> r \<noteq> Fin 1"
  have step: "?P phi v delta a tau x r"
    if IH: "\<And>phi v delta a tau x r. f phi v delta a tau x = Some r \<Longrightarrow> ?P phi v delta a tau x r"
      and body: "(let x_next = x - spec_h1 phi v delta a tau x / spec_h2 phi v delta tau x
                  in if \<bar>x_next - x\<bar> \<le> 0.0000001 then Some (exp_double (x_next / 2))
                     else f phi v delta a tau x_next) = Some r"
    for f phi v delta a tau x r
  proof
    assume p: "phi = Fin 1 \<and> v = Fin 4 \<and> delta = Fin 2 \<and> a = Fin 0 \<and> tau = dvolatility"
    let ?n = "newton_step (Fin 1) (Fin 4) (Fin 2) (Fin 0) x"
    from body p
    have b: "(if \<bar>?n - x\<bar> \<le> 0.0000001 then Some (exp_double (?n / 2))
              else f (Fin 1) (Fin 4) (Fin 2) (Fin 0) dvolatility ?n) = Some r"
      by (simp add: spec_step_newton_step Let_def split: if_splits)
    show "r \<noteq> Fin 1"
    proof (cases "\<bar>?n - x\<bar> \<le> 0.0000001")
      case True
      with b unit_exit_not_one [OF True] show ?thesis
        by auto
    next
      case False
      with b have "f (Fin 1) (Fin 4) (Fin 2) (Fin 0) dvolatility ?n = Some r"
        by simp
      from IH [OF this] show ?thesis
        by simp
    qed
  qed
  have "?P (Fin 1) (Fin 4) (Fin 2) (Fin 0) dvolatility x r"
  proof (rule spec_iterate.raw_induct
      [where xa = "(((((Fin 1, Fin 4), Fin 2), Fin 0), dvolatility), x)" and y = r and P = ?P,
       unfolded prod.case])
    show "spec_iterate (Fin 1) (Fin 4) (Fin 2) (Fin 0) dvolatility x = Some r"
      by (fact assms)
  qed (rule step)
  then show ?thesis
    by simp
qed

lemma VolatilitySolver_unit:
  "VolatilitySolver (Fin 1) (Fin 4) (Fin 2) (Fin 1) dvolatility \<noteq> Some (Fin 1)"
proof
  assume "VolatilitySolver (Fin 1) (Fin 4) (Fin 2) (Fin 1) dvolatility = Some (Fin 1)"
  then have "spec_iterate (Fin 1) (Fin 4) (Fin 2) (Fin 0) dvolatility (Fin 0) = Some (Fin 1)"
    by (simp add: VolatilitySolver_def Let_def double_simps)
  from spec_iterate_unit [OF this] show False
    by simp
qed

text \<open>
  Claim C2, at a player of volatility 1.0. The loop starts with \<open>x = 0.0\<close> and
  \<open>x_new = a\<close>, where \<open>a = log (1.0 * 1.0) = 0\<close>: the first test compares these two,
  fails, and no Newton step is computed. The volatility stays \<open>exp (0 / 2) = 1\<close>. The
  step from \<open>x = a\<close> that the specification prescribes leads to \<open>-6/2407\<close>, further than
  \<open>1e-7\<close> from \<open>a\<close>, and the solver of the specification, run on the same numbers,
  does not return the volatility 1.
\<close>

theorem unit_volatility_skips_newton:
  "log_double (volatility unit_volatility_subject * volatility unit_volatility_subject) = Fin 0
   \<and> newton_step (deviation unit_volatility_subject) (spec_v unit_volatility_subject)
        (spec_delta unit_volatility_subject) (Fin 0) (Fin 0) = Fin (- (6 / 2407))
   \<and> volatility_loop (deviation unit_volatility_subject) (spec_v unit_volatility_subject)
        (spec_delta unit_volatility_subject) (Fin 0) 0 (Fin 0) = Some (Fin 0)
   \<and> Update unit_volatility_subject
       = Some (Inr (Glicko2 (Fin (2/3)) (Fin (1 / sqrt (3/4))) (Fin 1) [] []))
   \<and> VolatilitySolver (deviation unit_volatility_subject) (spec_v unit_volatility_subject)
        (spec_delta unit_volatility_subject) (volatility unit_volatility_subject) dvolatility
       \<noteq> Some (Fin 1)"
proof -
  have f: "rating unit_volatility_subject = Fin 0" "deviation unit_volatility_subject = Fin 1"
    "volatility unit_volatility_subject = Fin 1" "opponents unit_volatility_subject \<noteq> []"
    "length (opponents unit_volatility_subject) \<le> length (results unit_volatility_subject)"
    by (simp_all add: unit_volatility_subject_eq)
  have a: "log_double (volatility unit_volatility_subject * volatility unit_volatility_subject)
           = Fin 0"
    by (simp add: f)
  have step: "newton_step (Fin 1) (Fin 4) (Fin 2) (Fin 0) (Fin 0) = Fin (- (6 / 2407))"
    by (simp add: newton_step_def Let_def dvolatility_def double_simps)
  have loop: "volatility_loop (Fin 1) (Fin 4) (Fin 2) (Fin 0) (Fin 0) (Fin 0) = Some (Fin 0)"
    by (subst volatility_loop.simps) (simp add: double_simps)
  have "(1 / sqrt (3 / 4 :: real))\<^sup>2 = 4 / 3"
    by (simp add: power_divide)
  then have upd: "Update unit_volatility_subject
       = Some (Inr (Glicko2 (Fin (2/3)) (Fin (1 / sqrt (3/4))) (Fin 1) [] []))"
    by (simp add: Update_nonempty [OF f(4,5)] a f unit_volatility_aggregates loop
        spec_mu'_def spec_phi'_def spec_phi_star_def double_simps)
  show ?thesis
    using a step loop upd VolatilitySolver_unit
    by (simp add: f unit_volatility_aggregates zero_double_def)
qed

section \<open>Properties of the binary64 arithmetic\<close>

subsection \<open>Rounding to the nearest double\<close>

lemma round_even_of_int [simp]: "round_even (of_int n) = n"
  by (simp add: round_even_def)

lemma round_even_ge: "of_int a \<le> q \<Longrightarrow> a \<le> round_even q"
  using le_floor_iff [of a q] unfolding round_even_def Let_def by auto

lemma round_even_le: "q \<le> of_int b \<Longrightarrow> round_even q \<le> b"
  unfolding round_even_def Let_def by (auto simp: floor_le_iff)

lemma round_even_near: "\<bar>of_int (round_even q) - q\<bar> \<le> 1/2"
  unfolding round_even_def Let_def by auto

lemma round_even_uminus: "round_even (- q) = - round_even q"
proof (cases "q \<in> \<int>")
  case True
  then obtain n where "q = of_int n" by (auto elim: Ints_cases)
  then have "- q = of_int (- n)" by simp
  then show ?thesis unfolding \<open>q = of_int n\<close> by (simp only: round_even_of_int)
next
  case False
  then have ne: "q \<noteq> of_int \<lfloor>q\<rfloor>"
    by (metis Ints_of_int)
  then have f: "\<lfloor>- q\<rfloor> = - \<lfloor>q\<rfloor> - 1"
    by (simp add: floor_minus ceiling_altdef)
  show ?thesis
    using ne unfolding round_even_def Let_def f
    by (auto simp: algebra_simps)
qed

lemma floor_log2_iff:
  assumes "x \<noteq> 0"
  shows "\<lfloor>log 2 \<bar>x\<bar>\<rfloor> = k \<longleftrightarrow> 2 powi k \<le> \<bar>x\<bar> \<and> \<bar>x\<bar> < 2 powi (k + 1)"
proof -
  have "(2::real) powr real_of_int k = 2 powi k" "(2::real) powr real_of_int (k + 1) = 2 powi (k + 1)"
    by (simp_all only: powr_real_of_int' [of 2, simplified])
  then show ?thesis
    using floor_log_eq_powr_iff [of "\<bar>x\<bar>" 2 k] assms by simp
qed

lemma binade:
  assumes "x \<noteq> 0"
  shows "2 powi \<lfloor>log 2 \<bar>x\<bar>\<rfloor> \<le> \<bar>x\<bar>" "\<bar>x\<bar> < 2 powi (\<lfloor>log 2 \<bar>x\<bar>\<rfloor> + 1)"
  using floor_log2_iff [OF assms, of "\<lfloor>log 2 \<bar>x\<bar>\<rfloor>"] by simp_all

lemma quantum_pos [simp]: "0 < quantum x"
  by (simp add: quantum_def)

lemma quantum_nonneg [simp]: "0 \<le> quantum x"
  using quantum_pos [of x] by (rule less_imp_le)

lemma round_even_zero [simp]: "round_even 0 = 0"
  using round_even_of_int [of 0] by simp

lemma quantum_neq_0 [simp]: "quantum x \<noteq> 0"
  using quantum_pos [of x] by (rule less_imp_neq [symmetric])

lemma quantum_eqI:
  assumes "2 powi k \<le> \<bar>x\<bar>" and "\<bar>x\<bar> < 2 powi (k + 1)"
  shows "quantum x = 2 powi (max (k - 52) (- 1074))"
proof -
  have "x \<noteq> 0"
  proof
    assume "x = 0"
    with assms(1) have "(2::real) powi k \<le> 0"
      by simp
    then have "\<not> 0 < (2::real) powi k"
      by (simp only: not_less)
    then show False
      by simp
  qed
  then show ?thesis
    using floor_log2_iff [of x k] assms by (simp add: quantum_def)
qed

text \<open>The number lies less than \<open>2^53\<close> quanta from zero.\<close>

lemma abs_less_quantum: "\<bar>x\<bar> < quantum x * 2 ^ 53"
proof (cases "x = 0")
  case True
  then show ?thesis by (simp add: quantum_def)
next
  case False
  let ?k = "\<lfloor>log 2 \<bar>x\<bar>\<rfloor>"
  have "\<bar>x\<bar> < 2 powi (?k + 1)"
    by (rule binade [OF False])
  also have "\<dots> \<le> 2 powi (max (?k - 52) (- 1074) + 53)"
    by (rule power_int_increasing) simp_all
  also have "\<dots> = quantum x * 2 ^ 53"
    using False by (simp add: quantum_def power_int_add)
  finally show ?thesis .
qed

text \<open>A quantum is at most \<open>2^-52\<close> times the number, or the smallest quantum.\<close>

lemma quantum_le: "quantum x \<le> \<bar>x\<bar> / 2 ^ 52 \<or> quantum x = 2 powi (- 1074)"
proof (cases "x = 0")
  case True
  then show ?thesis by (simp add: quantum_def)
next
  case False
  let ?k = "\<lfloor>log 2 \<bar>x\<bar>\<rfloor>"
  show ?thesis
  proof (cases "?k - 52 \<le> - 1074")
    case True
    then have "max (?k - 52) (- 1074) = - 1074" by simp
    then show ?thesis using False by (simp add: quantum_def)
  next
    case False
    then have "max (?k - 52) (- 1074) = ?k - 52" by simp
    then have "quantum x = 2 powi (?k - 52)"
      using \<open>x \<noteq> 0\<close> by (simp add: quantum_def)
    also have "\<dots> = 2 powi ?k / 2 ^ 52"
      by (simp add: power_int_diff)
    also have "\<dots> \<le> \<bar>x\<bar> / 2 ^ 52"
      using binade(1) [OF \<open>x \<noteq> 0\<close>] by (simp add: divide_right_mono)
    finally show ?thesis by simp
  qed
qed

lemma quantum_uminus [simp]: "quantum (- x) = quantum x"
  by (simp add: quantum_def)

lemma nearest_uminus: "nearest (- x) = - nearest x"
  by (simp add: nearest_def round_even_uminus)

lemma nearest_zero [simp]: "nearest 0 = 0"
  by (simp add: nearest_def)

text \<open>Rounding moves a number by at most half a quantum.\<close>

lemma nearest_near: "\<bar>nearest x - x\<bar> \<le> quantum x / 2"
proof -
  have "\<bar>of_int (round_even (x / quantum x)) - x / quantum x\<bar> * quantum x \<le> 1/2 * quantum x"
    by (intro mult_right_mono round_even_near) simp
  also have "\<bar>of_int (round_even (x / quantum x)) - x / quantum x\<bar> * quantum x
             = \<bar>(of_int (round_even (x / quantum x)) - x / quantum x) * quantum x\<bar>"
    by (simp add: abs_mult)
  also have "(of_int (round_even (x / quantum x)) - x / quantum x) * quantum x = nearest x - x"
    by (simp add: nearest_def algebra_simps)
  finally show ?thesis by simp
qed

text \<open>Rounding does not cross a multiple of the quantum.\<close>

lemma nearest_ge: "of_int a * quantum x \<le> x \<Longrightarrow> of_int a * quantum x \<le> nearest x"
  unfolding nearest_def
  by (intro mult_right_mono round_even_ge [THEN of_int_le_iff [THEN iffD2]])
     (simp_all add: pos_le_divide_eq)

lemma nearest_le: "x \<le> of_int b * quantum x \<Longrightarrow> nearest x \<le> of_int b * quantum x"
  unfolding nearest_def
  by (intro mult_right_mono round_even_le [THEN of_int_le_iff [THEN iffD2]])
     (simp_all add: pos_divide_le_eq)

lemma nearest_nonneg: "0 \<le> x \<Longrightarrow> 0 \<le> nearest x"
  using nearest_ge [of 0 x] by simp

lemma nearest_nonpos: "x \<le> 0 \<Longrightarrow> nearest x \<le> 0"
  using nearest_le [of x 0] by simp

lemma round_even_eqI: "\<bar>q - of_int m\<bar> < 1/2 \<Longrightarrow> round_even q = m"
proof -
  assume a: "\<bar>q - of_int m\<bar> < 1/2"
  then have b: "- (1/2) < q - of_int m" "q - of_int m < 1/2"
    by linarith+
  then have "\<lfloor>q\<rfloor> = m \<or> \<lfloor>q\<rfloor> = m - 1"
    by (auto simp: floor_eq_iff)
  then show ?thesis
  proof
    assume f: "\<lfloor>q\<rfloor> = m"
    show ?thesis using b(2) by (simp add: round_even_def f)
  next
    assume f: "\<lfloor>q\<rfloor> = m - 1"
    have "1/2 < q - of_int (m - 1)" using b(1) by simp
    then show ?thesis by (simp add: round_even_def f)
  qed
qed

lemma quantum_exponent:
  assumes "\<bar>x\<bar> < 2 powi (j + 53)" and "- 1074 \<le> j"
  obtains e where "quantum x = 2 powi e" and "e \<le> j"
proof (cases "x = 0")
  case True
  then have "quantum x = 2 powi (- 1074)" by (simp add: quantum_def)
  with assms(2) that show ?thesis by blast
next
  case False
  let ?k = "\<lfloor>log 2 \<bar>x\<bar>\<rfloor>"
  have "2 powi ?k \<le> \<bar>x\<bar>"
    by (rule binade [OF False])
  with assms(1) have lt: "(2::real) powi ?k < 2 powi (j + 53)"
    by simp
  have "\<not> j + 53 \<le> ?k"
  proof
    assume "j + 53 \<le> ?k"
    then have "(2::real) powi (j + 53) \<le> 2 powi ?k"
      by (rule power_int_increasing) simp
    with lt show False
      by simp
  qed
  then have "?k < j + 53"
    by simp
  with assms(2) have "max (?k - 52) (- 1074) \<le> j"
    by simp
  moreover have "quantum x = 2 powi (max (?k - 52) (- 1074))"
    using False by (simp add: quantum_def)
  ultimately show ?thesis
    using that by blast
qed

lemma multiple_of_quantum:
  assumes "\<bar>x\<bar> < 2 powi (j + 53)" and "- 1074 \<le> j"
  obtains n :: int where "of_int a * 2 powi j = of_int n * quantum x"
proof -
  from assms obtain e where e: "quantum x = 2 powi e" "e \<le> j"
    by (rule quantum_exponent)
  have "(2::real) powi j = 2 powi (int (nat (j - e)) + e)"
    using e(2) by simp
  also have "\<dots> = 2 ^ nat (j - e) * 2 powi e"
    by (simp only: power_int_add [of "2::real", simplified] power_int_of_nat)
  finally have "of_int a * 2 powi j = of_int (a * 2 ^ nat (j - e)) * quantum x"
    by (simp add: e(1))
  then show ?thesis
    by (rule that)
qed

text \<open>Rounding does not cross a multiple of a power of two, when the number is less than
  \<open>2^53\<close> times that power.\<close>

lemma nearest_ge_multiple:
  assumes "\<bar>x\<bar> < 2 powi (j + 53)" and "- 1074 \<le> j" and "of_int a * 2 powi j \<le> x"
  shows "of_int a * 2 powi j \<le> nearest x"
proof -
  from assms(1,2) obtain n :: int where n: "of_int a * 2 powi j = of_int n * quantum x"
    by (rule multiple_of_quantum)
  from assms(3) show ?thesis
    unfolding n by (rule nearest_ge)
qed

lemma nearest_le_multiple:
  assumes "\<bar>x\<bar> < 2 powi (j + 53)" and "- 1074 \<le> j" and "x \<le> of_int b * 2 powi j"
  shows "nearest x \<le> of_int b * 2 powi j"
proof -
  from assms(1,2) obtain n :: int where n: "of_int b * 2 powi j = of_int n * quantum x"
    by (rule multiple_of_quantum)
  from assms(3) show ?thesis
    unfolding n by (rule nearest_le)
qed

text \<open>A number with at most 53 significant bits and an exponent in range is a double.\<close>

lemma nearest_exact:
  assumes "\<bar>m\<bar> < 2 ^ 53" and "- 1074 \<le> j"
  shows "nearest (of_int m * 2 powi j) = of_int m * 2 powi j"
proof -
  have "\<bar>of_int m * 2 powi j\<bar> = \<bar>real_of_int m\<bar> * 2 powi j"
    by (simp add: abs_mult)
  also have "\<dots> < 2 ^ 53 * 2 powi j"
    using assms(1) by (intro mult_strict_right_mono) (simp_all flip: of_int_abs)
  also have "\<dots> = 2 powi (j + 53)"
    by (simp add: power_int_add)
  finally have small: "\<bar>real_of_int m * 2 powi j\<bar> < 2 powi (j + 53)" .
  from nearest_ge_multiple [OF small assms(2), of m] nearest_le_multiple [OF small assms(2), of m]
  show ?thesis by simp
qed

lemma nearest_of_int: "\<bar>n\<bar> < 2 ^ 53 \<Longrightarrow> nearest (of_int n) = of_int n"
  using nearest_exact [of n 0] by simp

text \<open>Between integers, below \<open>2^53\<close>.\<close>

lemma nearest_ge_int: "\<bar>x\<bar> < 2 ^ 53 \<Longrightarrow> of_int a \<le> x \<Longrightarrow> of_int a \<le> nearest x"
  using nearest_ge_multiple [of x 0 a] by simp

lemma nearest_le_int: "\<bar>x\<bar> < 2 ^ 53 \<Longrightarrow> x \<le> of_int b \<Longrightarrow> nearest x \<le> of_int b"
  using nearest_le_multiple [of x 0 b] by simp

text \<open>The relative error of rounding, with the absolute error of the subnormal range.\<close>

lemma nearest_error: "\<bar>nearest x - x\<bar> \<le> \<bar>x\<bar> / 2 ^ 53 + 2 powi (- 1075)"
proof -
  have "quantum x / 2 \<le> \<bar>x\<bar> / 2 ^ 53 + 2 powi (- 1075)"
    using quantum_le [of x]
  proof
    assume "quantum x \<le> \<bar>x\<bar> / 2 ^ 52"
    then have "quantum x / 2 \<le> \<bar>x\<bar> / 2 ^ 53"
      by simp
    moreover have "0 \<le> (2::real) powi (- 1075)"
      by simp
    ultimately show ?thesis
      by linarith
  next
    assume "quantum x = 2 powi (- 1074)"
    then have "quantum x / 2 = 2 powi (- 1075)"
      by (simp add: power_int_minus)
    moreover have "0 \<le> \<bar>x\<bar> / 2 ^ 53"
      by simp
    ultimately show ?thesis
      by linarith
  qed
  with nearest_near [of x] show ?thesis
    by linarith
qed

lemma nearest_in_range:
  assumes "\<bar>x\<bar> \<le> (2 ^ 53 - 1) * 2 ^ 971"
  shows "\<bar>nearest x\<bar> \<le> (2 ^ 53 - 1) * 2 ^ 971"
proof -
  have "((2::real) ^ 53 - 1) * 2 ^ 971 < 2 ^ 1024"
    by simp
  with assms have small: "\<bar>x\<bar> < 2 powi (971 + 53)"
    by simp
  have "x \<le> of_int (2 ^ 53 - 1) * 2 powi 971" "of_int (- (2 ^ 53 - 1)) * 2 powi 971 \<le> x"
    using assms by simp_all
  from nearest_le_multiple [OF small _ this(1)] nearest_ge_multiple [OF small _ this(2)]
  show ?thesis
    by simp
qed

lemma round_real_Fin:
  assumes "\<bar>x\<bar> \<le> (2 ^ 53 - 1) * 2 ^ 971"
  shows "round_real x = Fin (nearest x)"
proof -
  have "((2::real) ^ 53 - 1) * 2 ^ 971 < 2 ^ 1024"
    by simp
  with nearest_in_range [OF assms] have "\<not> 2 ^ 1024 \<le> \<bar>nearest x\<bar>"
    by linarith
  then show ?thesis
    by (simp add: round_real_def)
qed

lemma round_real_cases:
  obtains "round_real x = Fin (nearest x)" and "\<bar>nearest x\<bar> < 2 ^ 1024"
  | "0 < x" and "round_real x = PInf"
  | "x < 0" and "round_real x = NInf"
proof (cases "2 ^ 1024 \<le> \<bar>nearest x\<bar>")
  case False
  then show ?thesis
    using that(1) by (simp add: round_real_def)
next
  case True
  then have "x \<noteq> 0"
    by auto
  with True show ?thesis
    using that(2,3) by (cases "0 < x") (simp_all add: round_real_def)
qed

lemma round_real_zero [simp]: "round_real 0 = Fin 0"
  by (simp add: round_real_def)

lemma round_real_of_int: "\<bar>n\<bar> < 2 ^ 53 \<Longrightarrow> round_real (of_int n) = Fin (of_int n)"
proof -
  assume n: "\<bar>n\<bar> < 2 ^ 53"
  then have "\<bar>real_of_int n\<bar> < 2 ^ 53"
    by (simp flip: of_int_abs)
  then have "\<bar>real_of_int n\<bar> < 2 ^ 1024"
    by simp
  then show ?thesis
    by (simp add: round_real_def nearest_of_int [OF n])
qed

lemma round_real_numeral [simp]:
  "\<bar>numeral k :: int\<bar> < 2 ^ 53 \<Longrightarrow> round_real (numeral k) = Fin (numeral k)"
  using round_real_of_int [of "numeral k"] by simp

lemma round_real_one [simp]: "round_real 1 = Fin 1"
  using round_real_of_int [of 1] by simp

lemma round_real_half [simp]: "round_real (1/2) = Fin (1/2)"
proof -
  have "nearest (of_int 1 * 2 powi (- 1)) = of_int 1 * 2 powi (- 1)"
    by (rule nearest_exact) simp_all
  then have "nearest (1/2) = 1/2"
    by (simp add: power_int_minus inverse_eq_divide)
  then show ?thesis
    by (simp add: round_real_def)
qed

text \<open>Rounding keeps a number on its side of 0 and of 1.\<close>

lemma round_real_nonneg:
  assumes "0 \<le> x"
  shows "Fin 0 \<le> round_real x"
proof (cases x rule: round_real_cases)
  case 1
  with nearest_nonneg [OF assms] show ?thesis
    by (auto simp: less_eq_double_def)
next
  case 2
  then show ?thesis by (simp add: less_eq_double_def)
next
  case 3
  with assms show ?thesis by simp
qed

lemma nearest_ge_one:
  assumes "1 \<le> x"
  shows "1 \<le> nearest x"
proof (cases "x < 2 ^ 53")
  case True
  with assms have "\<bar>x\<bar> < 2 ^ 53" by simp
  from nearest_ge_int [OF this, of 1] assms show ?thesis by simp
next
  case False
  then have big: "2 ^ 53 \<le> x" by simp
  have "x - nearest x \<le> \<bar>x\<bar> / 2 ^ 53 + 2 powi (- 1075)"
    using nearest_error [of x] by linarith
  also have "\<bar>x\<bar> = x" using assms by simp
  finally have "x * (1 - 1 / 2 ^ 53) - 2 powi (- 1075) \<le> nearest x"
    by (simp add: algebra_simps)
  moreover have "2 ^ 53 * (1 - 1 / 2 ^ 53) \<le> x * (1 - 1 / 2 ^ 53)"
    using big by (intro mult_right_mono) simp_all
  moreover have "(2::real) powi (- 1075) \<le> 1"
    using power_int_increasing [of "- 1075" 0 "2::real"] by simp
  ultimately show ?thesis
    by simp
qed

lemma round_real_ge_one:
  assumes "1 \<le> x"
  shows "Fin 1 \<le> round_real x"
proof (cases x rule: round_real_cases)
  case 1
  with nearest_ge_one [OF assms] show ?thesis
    by (auto simp: less_eq_double_def)
next
  case 2
  then show ?thesis by (simp add: less_eq_double_def)
next
  case 3
  with assms show ?thesis by simp
qed

lemma round_real_unit:
  assumes "0 \<le> x" and "x \<le> 1"
  shows "\<exists>y. round_real x = Fin y \<and> 0 \<le> y \<and> y \<le> 1"
proof -
  have small: "\<bar>x\<bar> < 2 ^ 53"
    using assms by simp
  have "nearest x \<le> 1"
    using nearest_le_int [OF small, of 1] assms(2) by simp
  moreover have "0 \<le> nearest x"
    by (rule nearest_nonneg [OF assms(1)])
  moreover have "round_real x = Fin (nearest x)"
    using assms by (intro round_real_Fin) simp
  ultimately show ?thesis
    by simp
qed

subsection \<open>The expected score in binary64\<close>

lemma Fin_le_iff [simp]: "Fin a \<le> Fin b \<longleftrightarrow> a \<le> b"
  by (auto simp: less_eq_double_def)

lemma Fin_le_cases:
  assumes "Fin a \<le> d"
  obtains r where "d = Fin r" and "a \<le> r" | "d = PInf"
  using assms by (cases d) (auto simp: less_eq_double_def)

lemma Fin_le_PInf [simp]: "Fin a \<le> PInf"
  by (simp add: less_eq_double_def)

lemma round_real_not_NaN [simp]: "round_real x \<noteq> NaN"
  by (cases x rule: round_real_cases) simp_all

lemma lit_simps [simp]:
  "lit 0 = Binary64 (Fin 0)" "lit 1 = Binary64 (Fin 1)"
  "\<bar>numeral k :: int\<bar> < 2 ^ 53 \<Longrightarrow> lit (numeral k) = Binary64 (Fin (numeral k))"
  by (simp_all add: lit_def)

lemma PI_SQUARED64_value:
  obtains p where "PI_SQUARED64 = Binary64 (Fin p)" and "9 \<le> p" and "p \<le> 10"
proof -
  let ?x = "9.86960440108935861883 :: real"
  have small: "\<bar>?x\<bar> < 2 ^ 53" by simp
  have "of_int 9 \<le> nearest ?x" "nearest ?x \<le> of_int 10"
    by (rule nearest_ge_int [OF small], simp) (rule nearest_le_int [OF small], simp)
  moreover have "round_real ?x = Fin (nearest ?x)"
    by (rule round_real_Fin) simp
  ultimately show ?thesis
    using that by (simp add: PI_SQUARED64_def lit_def)
qed

text \<open>The steps of \<open>g64\<close> and \<open>E64\<close> on values that are not NaN.\<close>

lemma one_plus_nonneg:
  assumes "Fin 0 \<le> d"
  shows "Fin 1 \<le> round_double (Fin 1 + d)"
  using assms by (cases rule: Fin_le_cases) (simp_all add: round_real_ge_one)

lemma inverse_ge_one:
  assumes "Fin 1 \<le> d"
  shows "\<exists>y. round_double (Fin 1 div d) = Fin y \<and> 0 \<le> y \<and> y \<le> 1"
  using assms
proof (cases rule: Fin_le_cases)
  case (1 r)
  then have "0 \<le> 1 / r" "1 / r \<le> 1" "r \<noteq> 0"
    by simp_all
  with 1 show ?thesis
    by (simp add: round_real_unit)
next
  case 2
  then show ?thesis by simp
qed

lemma sqrt_ge_one:
  assumes "Fin 1 \<le> d"
  shows "Fin 1 \<le> round_double (sqrt_double d)"
  using assms by (cases rule: Fin_le_cases) (simp_all add: round_real_ge_one)

lemma divide_nonneg:
  assumes "Fin 0 \<le> d" and "0 < p"
  shows "Fin 0 \<le> round_double (d div Fin p)"
  using assms by (cases rule: Fin_le_cases) (simp_all add: round_real_nonneg)

lemma square_nonneg:
  assumes "0 < c"
  shows "Fin 0 \<le> round_double (round_real (c * phi) * Fin phi)"
proof (cases "c * phi" rule: round_real_cases)
  case 1
  have "0 \<le> nearest (c * phi) * phi"
  proof (cases "0 \<le> phi")
    case True
    then have "0 \<le> nearest (c * phi)"
      using assms by (intro nearest_nonneg) simp
    with True show ?thesis by simp
  next
    case False
    then have "nearest (c * phi) \<le> 0"
      using assms by (intro nearest_nonpos) (simp add: mult_le_0_iff)
    with False show ?thesis by (simp add: mult_nonpos_nonpos)
  qed
  with 1 show ?thesis
    by (simp add: round_real_nonneg)
next
  case 2
  with assms have "0 < phi"
    by (simp add: zero_less_mult_iff)
  with 2 show ?thesis by simp
next
  case 3
  with assms have "phi < 0"
    by (simp add: mult_less_0_iff)
  with 3 show ?thesis by simp
qed

lemma exp_nonneg:
  assumes "d \<noteq> NaN"
  shows "Fin 0 \<le> round_double (exp_double d)"
  using assms by (cases d) (simp_all add: round_real_nonneg)

lemma g64_range:
  obtains gamma where "g64 (Binary64 (Fin phi)) = Binary64 (Fin gamma)"
    and "0 \<le> gamma" and "gamma \<le> 1"
proof -
  obtain p where p: "PI_SQUARED64 = Binary64 (Fin p)" "9 \<le> p"
    by (rule PI_SQUARED64_value)
  have "Fin 0 \<le> round_double (round_real (3 * phi) * Fin phi)"
    by (rule square_nonneg) simp
  then have "Fin 0 \<le> round_double (round_double (round_real (3 * phi) * Fin phi) div Fin p)"
    using p(2) by (intro divide_nonneg) simp_all
  then have "Fin 1 \<le> round_double (Fin 1
      + round_double (round_double (round_real (3 * phi) * Fin phi) div Fin p))"
    by (rule one_plus_nonneg)
  then have "Fin 1 \<le> round_double (sqrt_double (round_double (Fin 1
      + round_double (round_double (round_real (3 * phi) * Fin phi) div Fin p))))"
    by (rule sqrt_ge_one)
  from inverse_ge_one [OF this] show ?thesis
    using that by (auto simp: g64_def p(1))
qed

lemma g64_zero: "g64 0 = 1"
proof -
  obtain p where p: "PI_SQUARED64 = Binary64 (Fin p)" "9 \<le> p"
    by (rule PI_SQUARED64_value)
  then have "p \<noteq> 0" by simp
  then show ?thesis
    by (simp add: g64_def p(1) zero_binary64_def one_binary64_def)
qed

lemma E64_range:
  assumes "rating' - rating_opponent = Binary64 (Fin t)"
  obtains y where "E64 rating' rating_opponent (Binary64 (Fin phi_j)) = Binary64 (Fin y)"
    and "0 \<le> y" and "y \<le> 1"
proof -
  obtain gamma where g: "g64 (Binary64 (Fin phi_j)) = Binary64 (Fin gamma)"
    by (rule g64_range)
  have "round_double (Fin (- gamma) * Fin t) \<noteq> NaN"
    by simp
  then have "Fin 0 \<le> round_double (exp_double (round_double (Fin (- gamma) * Fin t)))"
    by (rule exp_nonneg)
  then have "Fin 1 \<le> round_double (Fin 1
      + round_double (exp_double (round_double (Fin (- gamma) * Fin t))))"
    by (rule one_plus_nonneg)
  from inverse_ge_one [OF this] show ?thesis
    using that by (auto simp: E64_def g assms)
qed

lemma E64_equal: "E64 (Binary64 (Fin mu)) (Binary64 (Fin mu)) 0 = lit 0.5"
  by (simp add: E64_def g64_zero one_binary64_def lit_def minus_double_def)

text \<open>\<open>exp (-37)\<close> is less than half the distance from 1 to the next double.\<close>

lemma exp_minus_37: "exp (- 37 :: real) < 1 / 2 ^ 53"
proof -
  have "1 + 1/8 + (1/8)\<^sup>2 / 2 \<le> exp (1/8 :: real)"
    by (rule exp_lower_Taylor_quadratic) simp
  then have "145/128 \<le> exp (1/8 :: real)"
    by (simp add: power2_eq_square)
  then have "(145/128 :: real) ^ 8 \<le> exp (1/8) ^ 8"
    by (intro power_mono) simp_all
  also have "\<dots> = exp (of_nat 8 * (1/8 :: real))"
    by (rule exp_of_nat_mult [symmetric])
  finally have "(145/128 :: real) ^ 8 \<le> exp 1"
    by simp
  moreover have "(271/100 :: real) \<le> (145/128) ^ 8"
    by (simp add: power_divide)
  ultimately have "(271/100 :: real) \<le> exp 1"
    by linarith
  then have "(271/100 :: real) ^ 37 \<le> exp 1 ^ 37"
    by (intro power_mono) simp_all
  also have "\<dots> = exp (of_nat 37 * (1 :: real))"
    by (rule exp_of_nat_mult [symmetric])
  finally have "(271/100 :: real) ^ 37 \<le> exp 37"
    by simp
  moreover have "(2::real) ^ 53 < (271/100) ^ 37"
    by (simp add: power_divide)
  ultimately have "(2::real) ^ 53 < exp 37"
    by linarith
  then have "1 / exp (37 :: real) < 1 / 2 ^ 53"
    by (intro divide_strict_left_mono) simp_all
  then show ?thesis
    by (simp add: exp_minus inverse_eq_divide)
qed

lemma round_real_tiny:
  assumes "0 \<le> x" and "x \<le> 1 / 2 ^ 53"
  obtains e where "round_real x = Fin e" and "0 \<le> e" and "e \<le> 1 / 2 ^ 53"
proof -
  have small: "\<bar>x\<bar> < 2 powi (- 105 + 53)"
    using assms by (simp add: power_int_minus inverse_eq_divide) 
  have "x \<le> of_int (2 ^ 52) * 2 powi (- 105)"
    using assms(2) by (simp add: power_int_minus field_simps)
  from nearest_le_multiple [OF small _ this] have "nearest x \<le> 1 / 2 ^ 53"
    by (simp add: power_int_minus field_simps)
  moreover have "0 \<le> nearest x"
    by (rule nearest_nonneg [OF assms(1)])
  moreover have "round_real x = Fin (nearest x)"
    using assms by (intro round_real_Fin) simp
  ultimately show ?thesis
    using that by simp
qed

lemma round_real_absorb:
  assumes "0 \<le> e" and "e \<le> 1 / 2 ^ 53"
  shows "round_real (1 + e) = Fin 1"
proof -
  have q: "quantum (1 + e) = 2 powi (max (0 - 52) (- 1074))"
    using assms by (intro quantum_eqI) simp_all
  then have q': "quantum (1 + e) = 1 / 2 ^ 52"
    by (simp add: power_int_minus inverse_eq_divide)
  have f: "\<lfloor>(1 + e) * 2 ^ 52\<rfloor> = 2 ^ 52"
    using assms by (simp add: floor_eq_iff algebra_simps) 
  have "(1 + e) * 2 ^ 52 - of_int (2 ^ 52) \<le> 1/2"
    using assms(2) by (simp add: algebra_simps)
  then have "round_even ((1 + e) * 2 ^ 52) = 2 ^ 52"
    unfolding round_even_def Let_def f by auto
  then have "nearest (1 + e) = 1"
    by (simp add: nearest_def q')
  then show ?thesis
    by (simp add: round_real_def)
qed

text \<open>
  Claim C9 fails on the code: the expected score is not strictly inside \<open>(0, 1)\<close> for all
  finite inputs. \<open>exp (-37)\<close> is less than half the distance from 1 to the next double, so
  \<open>1 + exp (-37)\<close> rounds to 1 and \<^verbatim>\<open>E(37, 0, 0)\<close> is exactly 1.
\<close>

theorem E64_reaches_1: "E64 (lit 37.0) (lit 0.0) (lit 0.0) = 1"
proof -
  have "0 \<le> exp (- 37 :: real)" "exp (- 37 :: real) \<le> 1 / 2 ^ 53"
    using exp_minus_37 by simp_all
  then obtain e where e: "round_real (exp (- 37)) = Fin e" "0 \<le> e" "e \<le> 1 / 2 ^ 53"
    by (rule round_real_tiny)
  have m: "round_real (- 37) = Fin (- 37)"
    using round_real_of_int [of "- 37"] by simp
  show ?thesis
    using g64_zero round_real_absorb [OF e(2,3)]
    by (simp add: E64_def zero_binary64_def one_binary64_def minus_double_def m e(1))
qed

text \<open>
  Claim C9 as amended. For finite arguments whose difference \<open>mu - mu_j\<close> is finite (the
  subtraction does not overflow), the expected score is a number of the closed interval
  \<open>[0, 1]\<close>, whatever the sign of \<open>phi_j\<close>; and \<open>E mu mu 0\<close> is 0.5 for every finite \<open>mu\<close>.
\<close>

theorem E64_in_closed_unit_interval:
  assumes "rating' - rating_opponent = Binary64 (Fin t)"
  shows "0 \<le> E64 rating' rating_opponent (Binary64 (Fin phi_j))
         \<and> E64 rating' rating_opponent (Binary64 (Fin phi_j)) \<le> 1
         \<and> E64 (Binary64 (Fin mu)) (Binary64 (Fin mu)) 0 = lit 0.5"
proof -
  from assms obtain y
    where "E64 rating' rating_opponent (Binary64 (Fin phi_j)) = Binary64 (Fin y)"
      and "0 \<le> y" and "y \<le> 1"
    by (rule E64_range)
  then have "0 \<le> E64 rating' rating_opponent (Binary64 (Fin phi_j))"
    and "E64 rating' rating_opponent (Binary64 (Fin phi_j)) \<le> 1"
    by (simp_all add: zero_binary64_def one_binary64_def)
  with E64_equal [of mu] show ?thesis
    by blast
qed

theorem E64_in_closed_unit_interval_witness:
  "lit 1.0 - lit 0.0 = Binary64 (Fin 1)
   \<and> 0 \<le> E64 (lit 1.0) (lit 0.0) (Binary64 (Fin 0))
   \<and> E64 (lit 1.0) (lit 0.0) (Binary64 (Fin 0)) \<le> 1
   \<and> E64 (Binary64 (Fin 1500)) (Binary64 (Fin 1500)) 0 = lit 0.5"
proof -
  have h: "lit 1.0 - lit 0.0 = Binary64 (Fin 1)"
    by (simp add: minus_double_def)
  from E64_in_closed_unit_interval [OF h, of 0 1500] h show ?thesis
    by blast
qed

subsection \<open>The two scales in binary64\<close>

lemma nearest_eqI:
  assumes "2 powi k \<le> \<bar>x\<bar>" and "\<bar>x\<bar> < 2 powi (k + 1)" and "- 1022 \<le> k"
    and "\<bar>x - of_int m * 2 powi (k - 52)\<bar> < 2 powi (k - 52) / 2"
  shows "nearest x = of_int m * 2 powi (k - 52)"
proof -
  have q: "quantum x = 2 powi (k - 52)"
    using quantum_eqI [OF assms(1,2)] assms(3) by simp
  have "\<bar>x - of_int m * 2 powi (k - 52)\<bar> / 2 powi (k - 52) < (2 powi (k - 52) / 2) / 2 powi (k - 52)"
    using assms(4) by (intro divide_strict_right_mono) simp_all
  then have "\<bar>(x - of_int m * 2 powi (k - 52)) / 2 powi (k - 52)\<bar> < 1/2"
    by simp
  then have "\<bar>x / 2 powi (k - 52) - of_int m\<bar> < 1/2"
    by (simp add: diff_divide_distrib)
  then have "round_even (x / 2 powi (k - 52)) = m"
    by (rule round_even_eqI)
  then show ?thesis
    by (simp add: nearest_def q)
qed

lemma lit_scale: "lit 173.7178 = Binary64 (Fin (6112151713653300 / 2 ^ 45))"
proof -
  have "nearest 173.7178 = of_int 6112151713653300 * 2 powi (7 - 52)"
    by (rule nearest_eqI) (simp_all add: power_int_minus)
  then have "nearest 173.7178 = 6112151713653300 / 2 ^ 45"
    by (simp add: power_int_minus)
  then show ?thesis
    by (simp add: lit_def round_real_def)
qed

text \<open>The largest double divided by the scale, and multiplied by it again.\<close>

lemma DBL_MAX_divided:
  "round_real ((2 ^ 53 - 1) * 2 ^ 971 / (6112151713653300 / 2 ^ 45))
   = Fin (6636749398201260 * 2 ^ 964)"
proof -
  let ?x = "(2 ^ 53 - 1) * 2 ^ 971 / (6112151713653300 / 2 ^ 45) :: real"
  have "nearest ?x = of_int 6636749398201260 * 2 powi (1016 - 52)"
    by (rule nearest_eqI) simp_all
  then have "nearest ?x = 6636749398201260 * 2 ^ 964"
    by simp
  then show ?thesis
    by (simp add: round_real_def)
qed

lemma DBL_MAX_multiplied:
  "round_real (6636749398201260 * 2 ^ 964 * (6112151713653300 / 2 ^ 45)) = PInf"
proof -
  let ?x = "6636749398201260 * 2 ^ 964 * (6112151713653300 / 2 ^ 45) :: real"
  have "nearest ?x = of_int (2 ^ 53) * 2 powi (1023 - 52)"
    by (rule nearest_eqI) simp_all
  then have "nearest ?x = 2 ^ 1024"
    by simp
  then show ?thesis
    by (simp add: round_real_def)
qed

lemma DBL_MAX_minus_1500:
  "round_real ((2 ^ 53 - 1) * 2 ^ 971 - 1500) = Fin ((2 ^ 53 - 1) * 2 ^ 971)"
proof -
  let ?x = "(2 ^ 53 - 1) * 2 ^ 971 - 1500 :: real"
  have "nearest ?x = of_int (2 ^ 53 - 1) * 2 powi (1023 - 52)"
    by (rule nearest_eqI) simp_all
  then have "nearest ?x = (2 ^ 53 - 1) * 2 ^ 971"
    by simp
  then show ?thesis
    by (simp add: round_real_def)
qed

lemma round_real_error:
  assumes "\<bar>x\<bar> \<le> 2 ^ 1023"
  obtains y where "round_real x = Fin y" and "\<bar>y - x\<bar> \<le> \<bar>x\<bar> / 2 ^ 53 + 2 powi (- 1075)"
proof -
  have "(2::real) ^ 1023 \<le> (2 ^ 53 - 1) * 2 ^ 971"
    by simp
  with assms have "\<bar>x\<bar> \<le> (2 ^ 53 - 1) * 2 ^ 971"
    by linarith
  then have "round_real x = Fin (nearest x)"
    by (rule round_real_Fin)
  with nearest_error [of x] that show ?thesis
    by blast
qed

lemma scale_bounds:
  obtains c where "lit 173.7178 = Binary64 (Fin c)" and "173 \<le> c" and "c \<le> 174"
  using lit_scale
  by (rule that) simp_all

lemma deviation_round_trip:
  assumes "\<bar>rd\<bar> \<le> 2 ^ 1000"
  shows "\<exists>y. GetDeviation64 (SetDeviation64 this (Binary64 (Fin rd))) = Binary64 (Fin y)
             \<and> \<bar>y - rd\<bar> \<le> \<bar>rd\<bar> / 2 ^ 51 + 1 / 2 ^ 1066"
proof -
  obtain c where scale: "lit 173.7178 = Binary64 (Fin c)" and c: "173 \<le> c" "c \<le> 174"
    by (rule scale_bounds)
  define eta :: real where "eta = 2 powi (- 1075)"
  have eta: "0 \<le> eta" "176 * eta \<le> 1 / 2 ^ 1066"
    by (simp_all add: eta_def power_int_minus field_simps)
  have big: "(2::real) ^ 1000 * 4 \<le> 2 ^ 1023" "eta \<le> 1"
    by (simp_all add: eta_def power_int_minus field_simps)
  define x1 where "x1 = rd / c"
  have x1: "\<bar>x1\<bar> * c = \<bar>rd\<bar>"
    using c by (simp add: x1_def)
  have "\<bar>x1\<bar> * 1 \<le> \<bar>x1\<bar> * c"
    using c by (intro mult_left_mono) simp_all
  with x1 have "\<bar>x1\<bar> \<le> \<bar>rd\<bar>"
    by simp
  then have "\<bar>x1\<bar> \<le> 2 ^ 1023"
    using assms big by linarith
  then obtain y1 where y1: "round_real x1 = Fin y1" "\<bar>y1 - x1\<bar> \<le> \<bar>x1\<bar> / 2 ^ 53 + eta"
    unfolding eta_def by (rule round_real_error)
  define x2 where "x2 = y1 * c"
  have "x2 - rd = (y1 - x1) * c"
    using c by (simp add: x2_def x1_def field_simps)
  then have "\<bar>x2 - rd\<bar> = \<bar>y1 - x1\<bar> * \<bar>c\<bar>"
    by (simp only: abs_mult)
  also have "\<dots> = \<bar>y1 - x1\<bar> * c"
    using c by simp
  also have "\<dots> \<le> (\<bar>x1\<bar> / 2 ^ 53 + eta) * c"
    using y1(2) c by (intro mult_right_mono) simp_all
  also have "\<dots> = \<bar>rd\<bar> / 2 ^ 53 + eta * c"
    using x1 by (simp add: algebra_simps)
  also have "eta * c \<le> eta * 174"
    using c eta(1) by (intro mult_left_mono) simp_all
  finally have e1: "\<bar>x2 - rd\<bar> \<le> \<bar>rd\<bar> / 2 ^ 53 + 174 * eta"
    by simp
  then have x2: "\<bar>x2\<bar> \<le> \<bar>rd\<bar> + \<bar>rd\<bar> / 2 ^ 53 + 174 * eta"
    by linarith
  then have "\<bar>x2\<bar> \<le> 2 ^ 1023"
    using assms big by (simp add: field_simps) 
  then obtain y2 where y2: "round_real x2 = Fin y2" "\<bar>y2 - x2\<bar> \<le> \<bar>x2\<bar> / 2 ^ 53 + eta"
    unfolding eta_def by (rule round_real_error)
  have "\<bar>x2\<bar> / 2 ^ 53 \<le> (\<bar>rd\<bar> + \<bar>rd\<bar> / 2 ^ 53 + 174 * eta) / 2 ^ 53"
    using x2 by (simp add: divide_right_mono)
  moreover have "\<bar>y2 - rd\<bar> \<le> \<bar>y2 - x2\<bar> + \<bar>x2 - rd\<bar>"
    by linarith
  ultimately have "\<bar>y2 - rd\<bar>
      \<le> (\<bar>rd\<bar> + \<bar>rd\<bar> / 2 ^ 53 + 174 * eta) / 2 ^ 53 + eta + (\<bar>rd\<bar> / 2 ^ 53 + 174 * eta)"
    using y2(2) e1 by linarith
  also have "\<dots> \<le> \<bar>rd\<bar> / 2 ^ 51 + 176 * eta"
    using eta(1) abs_ge_zero [of rd] by (simp add: field_simps)
  finally have "\<bar>y2 - rd\<bar> \<le> \<bar>rd\<bar> / 2 ^ 51 + 1 / 2 ^ 1066"
    using eta(2) by linarith
  moreover have "GetDeviation64 (SetDeviation64 this (Binary64 (Fin rd))) = Binary64 (Fin y2)"
    unfolding GetDeviation64_def SetDeviation64_def scale
    using c y1(1) y2(1) by (simp add: x1_def x2_def)
  ultimately show ?thesis
    by blast
qed

lemma rating_round_trip:
  assumes "\<bar>r\<bar> \<le> 2 ^ 1000"
  shows "\<exists>y. GetRating64 (SetRating64 this (Binary64 (Fin r))) = Binary64 (Fin y)
             \<and> \<bar>y - r\<bar> \<le> (\<bar>r\<bar> + 1500) / 2 ^ 49 + 1 / 2 ^ 1060"
proof -
  obtain c where scale: "lit 173.7178 = Binary64 (Fin c)" and c: "173 \<le> c" "c \<le> 174"
    by (rule scale_bounds)
  define eta :: real where "eta = 2 powi (- 1075)"
  have eta: "0 \<le> eta" "200 * eta \<le> 1 / 2 ^ 1060" "eta \<le> 1"
    by (simp_all add: eta_def power_int_minus field_simps)
  define A where "A = \<bar>r\<bar> + 1500"
  have A: "0 \<le> A" "A \<le> 2 ^ 1001"
    using assms by (simp_all add: A_def)
  have big: "(2::real) ^ 1001 * 8 + 2000 \<le> 2 ^ 1023"
    by simp
  define x0 where "x0 = r - 1500"
  have x0: "\<bar>x0\<bar> \<le> A"
    by (simp add: x0_def A_def)
  then have "\<bar>x0\<bar> \<le> 2 ^ 1023"
    using A big by linarith
  then obtain y0 where y0: "round_real x0 = Fin y0" "\<bar>y0 - x0\<bar> \<le> \<bar>x0\<bar> / 2 ^ 53 + eta"
    unfolding eta_def by (rule round_real_error)
  have "\<bar>x0\<bar> / 2 ^ 53 \<le> A / 2 ^ 53"
    using x0 by (simp add: divide_right_mono)
  with y0(2) have e0: "\<bar>y0 - x0\<bar> \<le> A / 2 ^ 53 + eta"
    by linarith
  have "A / 2 ^ 53 \<le> A"
    using A(1) by (simp add: field_simps)
  with e0 x0 have b0: "\<bar>y0\<bar> \<le> 2 * A + eta"
    by linarith
  define x1 where "x1 = y0 / c"
  have x1: "\<bar>x1\<bar> * c = \<bar>y0\<bar>"
    using c by (simp add: x1_def)
  have "\<bar>x1\<bar> * 1 \<le> \<bar>x1\<bar> * c"
    using c by (intro mult_left_mono) simp_all
  with x1 have "\<bar>x1\<bar> \<le> \<bar>y0\<bar>"
    by simp
  then have "\<bar>x1\<bar> \<le> 2 ^ 1023"
    using b0 A big eta(3) by linarith
  then obtain y1 where y1: "round_real x1 = Fin y1" "\<bar>y1 - x1\<bar> \<le> \<bar>x1\<bar> / 2 ^ 53 + eta"
    unfolding eta_def by (rule round_real_error)
  define x2 where "x2 = y1 * c"
  have "x2 - y0 = (y1 - x1) * c"
    using c by (simp add: x2_def x1_def field_simps)
  then have "\<bar>x2 - y0\<bar> = \<bar>y1 - x1\<bar> * \<bar>c\<bar>"
    by (simp only: abs_mult)
  also have "\<dots> = \<bar>y1 - x1\<bar> * c"
    using c by simp
  also have "\<dots> \<le> (\<bar>x1\<bar> / 2 ^ 53 + eta) * c"
    using y1(2) c by (intro mult_right_mono) simp_all
  also have "\<dots> = \<bar>y0\<bar> / 2 ^ 53 + eta * c"
    using x1 by (simp add: algebra_simps)
  also have "eta * c \<le> eta * 174"
    using c eta(1) by (intro mult_left_mono) simp_all
  finally have e1: "\<bar>x2 - y0\<bar> \<le> \<bar>y0\<bar> / 2 ^ 53 + 174 * eta"
    by simp
  have "\<bar>y0\<bar> / 2 ^ 53 \<le> (2 * A + eta) / 2 ^ 53"
    using b0 by (simp add: divide_right_mono)
  with e1 have e1': "\<bar>x2 - y0\<bar> \<le> (2 * A + eta) / 2 ^ 53 + 174 * eta"
    by linarith
  have "(2 * A + eta) / 2 ^ 53 \<le> A + eta"
    using A(1) eta(1) by (simp add: field_simps)
  with e1' b0 have b2: "\<bar>x2\<bar> \<le> 3 * A + 176 * eta"
    by linarith
  then have "\<bar>x2\<bar> \<le> 2 ^ 1023"
    using A big eta(3) by linarith
  then obtain y2 where y2: "round_real x2 = Fin y2" "\<bar>y2 - x2\<bar> \<le> \<bar>x2\<bar> / 2 ^ 53 + eta"
    unfolding eta_def by (rule round_real_error)
  have "\<bar>x2\<bar> / 2 ^ 53 \<le> (3 * A + 176 * eta) / 2 ^ 53"
    using b2 by (simp add: divide_right_mono)
  with y2(2) have e2: "\<bar>y2 - x2\<bar> \<le> (3 * A + 176 * eta) / 2 ^ 53 + eta"
    by linarith
  have "(3 * A + 176 * eta) / 2 ^ 53 \<le> A + eta"
    using A(1) eta(1) by (simp add: field_simps)
  with e2 b2 have b3: "\<bar>y2\<bar> \<le> 4 * A + 178 * eta"
    by linarith
  define x3 where "x3 = y2 + 1500"
  have b3': "\<bar>x3\<bar> \<le> 4 * A + 178 * eta + 1500"
    using b3 unfolding x3_def by linarith
  then have "\<bar>x3\<bar> \<le> 2 ^ 1023"
    using A big eta(3) by linarith
  then obtain y3 where y3: "round_real x3 = Fin y3" "\<bar>y3 - x3\<bar> \<le> \<bar>x3\<bar> / 2 ^ 53 + eta"
    unfolding eta_def by (rule round_real_error)
  have "\<bar>x3\<bar> / 2 ^ 53 \<le> (4 * A + 178 * eta + 1500) / 2 ^ 53"
    using b3' by (simp add: divide_right_mono)
  with y3(2) have e3: "\<bar>y3 - x3\<bar> \<le> (4 * A + 178 * eta + 1500) / 2 ^ 53 + eta"
    by linarith
  have "y3 - r = (y3 - x3) + (y2 - x2) + (x2 - y0) + (y0 - x0)"
    by (simp add: x3_def x0_def)
  then have "\<bar>y3 - r\<bar> \<le> \<bar>y3 - x3\<bar> + \<bar>y2 - x2\<bar> + \<bar>x2 - y0\<bar> + \<bar>y0 - x0\<bar>"
    by linarith
  with e3 e2 e1' e0 have "\<bar>y3 - r\<bar>
      \<le> ((4 * A + 178 * eta + 1500) / 2 ^ 53 + eta) + ((3 * A + 176 * eta) / 2 ^ 53 + eta)
        + ((2 * A + eta) / 2 ^ 53 + 174 * eta) + (A / 2 ^ 53 + eta)"
    by linarith
  also have "\<dots> \<le> A / 2 ^ 49 + 200 * eta"
  proof -
    have "1500 \<le> A" by (simp add: A_def)
    then show ?thesis
      using eta(1) by (simp add: field_simps)
  qed
  finally have "\<bar>y3 - r\<bar> \<le> (\<bar>r\<bar> + 1500) / 2 ^ 49 + 1 / 2 ^ 1060"
    using eta(2) by (simp add: A_def) 
  moreover have "GetRating64 (SetRating64 this (Binary64 (Fin r))) = Binary64 (Fin y3)"
    unfolding GetRating64_def SetRating64_def scale
    using c y0(1) y1(1) y2(1) y3(1) by (simp add: x0_def x1_def x2_def x3_def minus_double_def)
  ultimately show ?thesis
    by blast
qed

text \<open>
  Claim C8 fails on the code as it is stated, for every finite number. At the largest
  double the quotient by 173.7178 is rounded up, and the product that should give the
  number back overflows: both round trips return \<open>+\<infinity>\<close>.
\<close>

theorem round_trip_overflows:
  "GetDeviation64 (SetDeviation64 Glicko2_impl64 DBL_MAX) = Binary64 PInf
   \<and> GetRating64 (SetRating64 Glicko2_impl64 DBL_MAX) = Binary64 PInf"
proof -
  define c :: real where "c = 6112151713653300 / 2 ^ 45"
  define M :: real where "M = (2 ^ 53 - 1) * 2 ^ 971"
  define q :: real where "q = 6636749398201260 * 2 ^ 964"
  have scale: "lit 173.7178 = Binary64 (Fin c)"
    unfolding c_def by (rule lit_scale)
  have c: "c \<noteq> 0"
    by (simp add: c_def)
  have s1: "round_real (M / c) = Fin q"
    unfolding M_def c_def q_def by (rule DBL_MAX_divided)
  have s2: "round_real (q * c) = PInf"
    unfolding c_def q_def by (rule DBL_MAX_multiplied)
  have s3: "round_real (M - 1500) = Fin M"
    unfolding M_def by (rule DBL_MAX_minus_1500)
  have m: "DBL_MAX = Binary64 (Fin M)"
    by (simp add: DBL_MAX_def M_def)
  show ?thesis
    unfolding GetDeviation64_def SetDeviation64_def GetRating64_def SetRating64_def scale m
    by (simp add: minus_double_def s1 s2 s3 c)
qed

text \<open>
  Claim C8 as amended. For a public rating \<open>r\<close> and a public deviation \<open>rd\<close> of magnitude at
  most \<open>2^1000\<close>, setting the number and reading it back returns a finite number within
  \<open>(\<bar>r\<bar> + 1500) / 2^49 + 2^-1060\<close> of \<open>r\<close>, and within \<open>\<bar>rd\<bar> / 2^51 + 2^-1066\<close> of \<open>rd\<close>.
\<close>

theorem scale_round_trip_within_tolerance:
  assumes "\<bar>r\<bar> \<le> 2 ^ 1000" and "\<bar>rd\<bar> \<le> 2 ^ 1000"
  shows "(\<exists>y. GetRating64 (SetRating64 this (Binary64 (Fin r))) = Binary64 (Fin y)
             \<and> \<bar>y - r\<bar> \<le> (\<bar>r\<bar> + 1500) / 2 ^ 49 + 1 / 2 ^ 1060)
         \<and> (\<exists>y. GetDeviation64 (SetDeviation64 this (Binary64 (Fin rd))) = Binary64 (Fin y)
             \<and> \<bar>y - rd\<bar> \<le> \<bar>rd\<bar> / 2 ^ 51 + 1 / 2 ^ 1066)"
  using rating_round_trip [OF assms(1)] deviation_round_trip [OF assms(2)] by simp

theorem scale_round_trip_within_tolerance_witness:
  "\<bar>1500 :: real\<bar> \<le> 2 ^ 1000 \<and> \<bar>350 :: real\<bar> \<le> 2 ^ 1000
   \<and> (\<exists>y. GetRating64 (SetRating64 Glicko2_impl64 (Binary64 (Fin 1500))) = Binary64 (Fin y)
             \<and> \<bar>y - 1500\<bar> \<le> (\<bar>1500\<bar> + 1500) / 2 ^ 49 + 1 / 2 ^ 1060)
   \<and> (\<exists>y. GetDeviation64 (SetDeviation64 Glicko2_impl64 (Binary64 (Fin 350))) = Binary64 (Fin y)
             \<and> \<bar>y - 350\<bar> \<le> \<bar>350\<bar> / 2 ^ 51 + 1 / 2 ^ 1066)"
proof -
  have h: "\<bar>1500 :: real\<bar> \<le> 2 ^ 1000" "\<bar>350 :: real\<bar> \<le> 2 ^ 1000"
    by simp_all
  from scale_round_trip_within_tolerance [OF h, of Glicko2_impl64] h show ?thesis
    by blast
qed

subsection \<open>The variance step and the update in binary64\<close>









lemma NaN64_absorbs [simp]:
  "x + Binary64 NaN = Binary64 NaN" "Binary64 NaN + x = Binary64 NaN"
  "x - Binary64 NaN = Binary64 NaN" "Binary64 NaN - x = Binary64 NaN"
  "x * Binary64 NaN = Binary64 NaN" "Binary64 NaN * x = Binary64 NaN"
  "x / Binary64 NaN = Binary64 NaN" "Binary64 NaN / x = Binary64 NaN"
  "- Binary64 NaN = Binary64 NaN"
  by (cases x; cases "double_of x"; simp add: minus_double_def)+

lemma NaN64_functions [simp]:
  "exp64 (Binary64 NaN) = Binary64 NaN" "sqrt64 (Binary64 NaN) = Binary64 NaN"
  by simp_all













end
